theory Spec2Isabelle
  imports Complex_Main "HOL-Library.AList"
begin

section \<open>Tokenizer collection (tokenizers.py)\<close>

text \<open>
  Python strings are modelled as \<open>string\<close> (a list of \<open>char\<close>). The separators and the
  punctuation marks of the tokenizers are ASCII characters, and no byte of a multi-byte
  UTF-8 sequence equals an ASCII character, so splitting the byte sequence and splitting
  the code-point sequence cut a text at the same places.
\<close>

text \<open>
  \<open>str.split(sep)\<close> with a one-character separator: the text is cut at every occurrence
  of the separator; nothing is merged or dropped, so the empty text gives one empty piece
  and two adjacent separators give an empty piece between them.
\<close>

fun split_on :: "char \<Rightarrow> string \<Rightarrow> string list" where
  "split_on d [] = [[]]"
| "split_on d (c # cs) =
     (if c = d then [] # split_on d cs
      else (case split_on d cs of
              [] \<Rightarrow> [[c]]
            | w # ws \<Rightarrow> (c # w) # ws))"

text \<open>\<open>WhitespaceTokenizer.__call__\<close>: \<open>words = text.split(' '); return words\<close>.\<close>

definition WhitespaceTokenizer :: "string \<Rightarrow> string list" where
  "WhitespaceTokenizer text = split_on CHR '' '' text"

text \<open>
  The operation the round-trip property of the whitespace tokenizer is stated with,
  \<open>' '.join(tokens)\<close>: the tokens with one space between each two neighbours. It is not
  part of the repository.
\<close>

fun join_space :: "string list \<Rightarrow> string" where
  "join_space [] = []"
| "join_space [w] = w"
| "join_space (w # v # ws) = w @ CHR '' '' # join_space (v # ws)"

text \<open>
  \<open>CustomTokenizer\<close>: \<open>self.punct = re.compile('[,!.?()]')\<close>. A character class matches
  exactly one character, so \<open>punct.search(ss)\<close> finds the leftmost character of \<open>ss\<close>
  that is one of the six marks; \<open>punct_search\<close> returns its index (\<open>punct_match.start()\<close>),
  or \<open>None\<close> when there is no match.
\<close>

definition punct :: "char \<Rightarrow> bool" where
  "punct c = (c \<in> set '',!.?()'')"

fun punct_search :: "string \<Rightarrow> nat option" where
  "punct_search [] = None"
| "punct_search (c # cs) =
     (if punct c then Some 0
      else (case punct_search cs of None \<Rightarrow> None | Some i \<Rightarrow> Some (Suc i)))"

text \<open>
  The body of the loop over the substrings:
  \<open>ss_tokens = [ss[:start], ss[start], ss[start + 1:]]\<close>, filtered by \<open>len(t) > 0\<close>, when
  there is a match, and \<open>[ss]\<close> otherwise. The index \<open>start\<close> is always in range, since it
  is the position of a match.
\<close>

definition ss_tokens :: "string \<Rightarrow> string list" where
  "ss_tokens ss =
     (case punct_search ss of
        Some start \<Rightarrow>
          filter (\<lambda>t. length t > 0) [take start ss, [ss ! start], drop (start + 1) ss]
      | None \<Rightarrow> [ss])"

text \<open>
  \<open>CustomTokenizer.__call__\<close>: the loop \<open>for ss in substrings: ... tokens.extend(ss_tokens)\<close>
  with the accumulator \<open>tokens\<close>, started at the empty list.
\<close>

fun extend_tokens :: "string list \<Rightarrow> string list \<Rightarrow> string list" where
  "extend_tokens tokens [] = tokens"
| "extend_tokens tokens (ss # substrings) = extend_tokens (tokens @ ss_tokens ss) substrings"

definition CustomTokenizer :: "string \<Rightarrow> string list" where
  "CustomTokenizer text = extend_tokens [] (split_on CHR '' '' text)"

text \<open>
  The lowercased linguistic tokenizers. \<open>str.lower\<close> is modelled on ASCII letters; the spaCy
  tokenizer (\<open>spacy.load('en').tokenizer\<close>) is a library outside the repository and is
  a parameter \<open>tokenizer\<close> of the model, returning the token texts.
\<close>

definition lower_char :: "char \<Rightarrow> char" where
  "lower_char c =
     (if (65::nat) \<le> of_char c \<and> of_char c \<le> (90::nat) then char_of (of_char c + (32::nat)) else c)"

definition lower :: "string \<Rightarrow> string" where
  "lower x = map lower_char x"

text \<open>\<open>lower_spacy(x)\<close>: \<open>x = x.lower()\<close>, then the token texts of the tokenizer on \<open>x\<close>.\<close>

definition lower_spacy :: "(string \<Rightarrow> string list) \<Rightarrow> string \<Rightarrow> string list" where
  "lower_spacy tokenizer x = tokenizer (lower x)"

text \<open>
  \<open>LowerSpacy.__call__(text)\<close>: \<open>return lambda x: [tok.text for tok in spacy_en.tokenizer(x)]\<close>.
  The call returns a function; \<open>text\<close> is not used and nothing is lowercased.
\<close>

definition LowerSpacy :: "(string \<Rightarrow> string list) \<Rightarrow> string \<Rightarrow> (string \<Rightarrow> string list)" where
  "LowerSpacy tokenizer text = (\<lambda>x. tokenizer x)"

section \<open>Model registry (ens\_model\_list.py)\<close>

text \<open>
  \<open>model_dict\<close>: the dictionary literal, as the list of its items in the order of the
  source. Each value is the pair (run identifier, argument string).
\<close>

definition model_dict :: "(string \<times> (string \<times> string)) list" where
  "model_dict =
    [(''wnews'', (''Jan_10_2019__21:56:52'', ''-es 3 -e 10 -em wnews  -hd 150 -we 10 --lrstep 10'')),
     (''glove'', (''Jan_10_2019__22:10:15'', ''-es 2 -e 9 -hd 150'')),
     (''paragram'', (''Jan_11_2019__11:10:57'', ''-hd 150 -es 2 -e 10 -em paragram -t lowerspacy -us 0'')),
     (''gnews'', (''Jan_11_2019__20:21:01'', ''-em gnews -es 2 -e 10 -hd 150 -us 0.1'')),
     (''gnews_num'', (''Jan_12_2019__22:13:37'', ''-em gnews -t gnews_num -es 2 -e 10 -us 0.1 -hd 150'')),
     (''wnews_test'', (''Jan_10_2019__19:33:05_test'', ''--mode test -em wnews'')),
     (''glove_test'', (''Jan_10_2019__19:34:39_test'', ''--mode test -em glove'')),
     (''glove_cv'', (''Jan_17_2019__17_59_36'', ''-hd 150 -k 5 -ne 3'')),
     (''paragram_cv'', (''Jan_15_2019__04_23_16'', ''-k 5 -hd 150 -e 10 -em paragram -t lowerspacy -us 0.1'')),
     (''wnews_cv'', (''Jan_11_2019__05:09:58'', ''-es 3 -e 10 -em wnews -m BiLSTMPoolTest -vl -hd 150 -we 10 --lrstep 20 -k 5 -us 0.1'')),
     (''gnews_cv'', (''Jan_18_2019__15_06_29'', ''-em gnews -es 2 -e 10 -hd 150 -us 0.1 -k 5 -ne 3'')),
     (''gnews_num_cv'', (''Jan_18_2019__16_45_38'', ''-em gnews -e 10 -hd 150 -us 0.1 -k 5 -ne 3 -t gnews_num'')),
     (''gnews_ph_cv'', (''Jan_19_2019__16_05_11'', ''-em gnews -e 10 -hd 150 -ne 3 -t gnews_ph -k 5 -us 0.1'')),
     (''gnews_ph_num_cv'', (''Jan_19_2019__18_56_02'', ''-em gnews -e 10 -hd 150 -ne 3 -t gnews_ph_num -k 5 -us 0.1''))]"

text \<open>The exceptions of the Python runtime that the modelled code can raise.\<close>

datatype py_error =
  KeyError | ZeroDivisionError | TypeError | ValueError | AttributeError
  | FileNotFoundError | FileExistsError

text \<open>
  Modelled from the spec: the resolution of a registry key. The function that resolves a
  key (\<open>get_pred_path\<close> of the ensemble component) is not among the source files; the spec
  says that an absent key propagates as a NotFound-style failure of the lookup layer and
  is not caught or translated. The model is the subscript \<open>model_dict[key]\<close> of a Python
  dictionary: the value of the key, or \<open>KeyError\<close>.
\<close>

definition resolve :: "string \<Rightarrow> py_error + (string \<times> string)" where
  "resolve key = (case map_of model_dict key of None \<Rightarrow> Inl KeyError | Some v \<Rightarrow> Inr v)"

section \<open>Learner (learner.py)\<close>

text \<open>
  Numbers. Python integers and floating-point numbers are modelled as real numbers, with
  exact arithmetic: comparisons are the comparisons of the source, and rounding to four
  decimal places is exact decimal rounding. What binary floating point adds (the result of
  \<open>round\<close> being the nearest representable number, \<open>nan\<close>) is outside the model, with one
  exception: the candidates of the threshold search are computed in double precision, as
  \<open>np.arange\<close> does, because their number depends on the rounding.

  The neural model, the loss function, the optimizer and the data iterators are opaque
  collaborators of the learner. The model object is identified by the number of optimizer
  steps it has taken; what the collaborators compute is given by the record
  \<open>collaborators\<close>.
\<close>

subsection \<open>Run info and its rounding\<close>

text \<open>A run-info record is a Python dictionary from field names to numbers, in insertion order.\<close>

type_synonym info = "(string \<times> real) list"

text \<open>
  \<open>round(v, ndigits)\<close>: the nearest multiple of \<open>10 ^ (- ndigits)\<close>, a tie going to the
  even multiple.
\<close>

definition round_half_even :: "real \<Rightarrow> int" where
  "round_half_even x =
     (let f = \<lfloor>x\<rfloor> in
      if x - of_int f < 1 / 2 then f
      else if 1 / 2 < x - of_int f then f + 1
      else if even f then f else f + 1)"

definition py_round :: "real \<Rightarrow> nat \<Rightarrow> real" where
  "py_round v ndigits = of_int (round_half_even (v * 10 ^ ndigits)) / 10 ^ ndigits"

text \<open>
  \<open>Learner.format_info\<close>: \<open>for k, v in zip(keys, values): info[k] = round(v, 4)\<close>, where
  \<open>keys\<close> and \<open>values\<close> are the lists of the keys and of the values of \<open>info\<close> taken before
  the loop. The assignment \<open>info[k] = ...\<close> is \<open>AList.update\<close>.
\<close>

definition format_info :: "info \<Rightarrow> info" where
  "format_info info =
     fold (\<lambda>(k, v) d. AList.update k (py_round v 4) d) (zip (map fst info) (map snd info)) info"

text \<open>\<open>info.update(dict)\<close>: every item of \<open>dict\<close> is assigned into \<open>info\<close>, in order.\<close>

definition dict_update :: "(string \<times> 'v) list \<Rightarrow> (string \<times> 'v) list \<Rightarrow> (string \<times> 'v) list" where
  "dict_update d other = fold (\<lambda>(k, v) d'. AList.update k v d') other d"

subsection \<open>The files of the learner\<close>

text \<open>
  The cells of a CSV row: the arguments of a run are strings or numbers, the fields of
  the run info are numbers.
\<close>

datatype cell = Str string | Num real

text \<open>
  The files under the fixed paths: the checkpoint \<open>./models/best_model.m\<close> (the saved
  model, identified by its number of optimizer steps), the info file
  \<open>./models/best_model.info\<close>, the run subdirectories (by name, each with the row of its
  detail file \<open>info.csv\<close> and its copy of the checkpoint) and the two aggregate logs
  \<open>./notes/records.csv\<close> and \<open>./notes/test_records.csv\<close> (a list of rows each). An absent file
  is \<open>None\<close>.
\<close>

record files =
  best_model_file :: "nat option"
  best_info_file :: "info option"
  subdirs :: "(string \<times> (string \<times> cell) list \<times> nat) list"
  records_csv :: "(string \<times> cell) list list"
  test_records_csv :: "(string \<times> cell) list list"

text \<open>
  The state of \<open>Learner.fit\<close>: the files, the local variables of the method, and a trace
  of the batches processed and of the calls of \<open>self.save\<close>, each with its epoch and step.
  The trace is not a variable of the source; it records what the loop did.
\<close>

datatype event = Batch nat nat | Save nat nat

record fit_state = files +
  step :: nat
  max_f1 :: real
  no_improve_epoch :: int
  no_improve_in_previous_epoch :: bool
  fine_tuning :: bool
  train_record :: "real list"
  val_record :: "(nat \<times> real \<times> real) list"
  losses :: "real list"
  trace :: "event list"

text \<open>
  What one validation batch gives under the current model: the raw outputs
  \<open>self.model.forward(val_x).view(-1)\<close>, the targets and the loss of the batch. The two
  lists have the same length (the batch size).
\<close>

record val_batch =
  val_pred :: "real list"
  val_y :: "real list"
  batch_loss :: real

text \<open>
  The collaborators of \<open>fit\<close>: \<open>train_dl e\<close> is the number of batches that
  \<open>iter(self.train_dl)\<close> yields in epoch \<open>e\<close>; \<open>loss_at s\<close> is the loss of the training batch
  of step \<open>s\<close>; \<open>val_dl s\<close> is what the validation batches give under the model after \<open>s\<close>
  steps; \<open>f1_metric\<close> is the function of that name of \<open>utils\<close>, which is not among the source
  files.
\<close>

record collaborators =
  train_dl :: "nat \<Rightarrow> nat"
  loss_at :: "nat \<Rightarrow> real"
  val_dl :: "nat \<Rightarrow> val_batch list"
  f1_metric :: "real \<Rightarrow> real \<Rightarrow> real \<Rightarrow> real"

subsection \<open>Learner.save, Learner.load, Learner.append\_info\<close>

text \<open>
  \<open>save(info)\<close>: \<open>torch.save(self.model, best_model_path); torch.save(info, best_info_path)\<close>.
  The argument \<open>m\<close> is the model object that is saved.
\<close>

definition save :: "nat \<Rightarrow> info \<Rightarrow> 'a files_scheme \<Rightarrow> 'a files_scheme" where
  "save m info fs = fs\<lparr>best_model_file := Some m, best_info_file := Some info\<rparr>"

text \<open>\<open>load()\<close>: both files are read; reading an absent file raises.\<close>

definition load :: "'a files_scheme \<Rightarrow> py_error + (nat \<times> info)" where
  "load fs =
     (case best_model_file fs of
        None \<Rightarrow> Inl FileNotFoundError
      | Some m \<Rightarrow>
          (case best_info_file fs of
             None \<Rightarrow> Inl FileNotFoundError
           | Some info \<Rightarrow> Inr (m, info)))"

text \<open>
  \<open>append_info(dict)\<close>: \<open>dict = cls.format_info(dict); info = torch.load(best_info_path);
  info.update(dict); torch.save(info, best_info_path)\<close>.
\<close>

definition append_info :: "info \<Rightarrow> 'a files_scheme \<Rightarrow> py_error + 'a files_scheme" where
  "append_info dict fs =
     (let dict' = format_info dict in
      case best_info_file fs of
        None \<Rightarrow> Inl FileNotFoundError
      | Some info \<Rightarrow> Inr (fs\<lparr>best_info_file := Some (dict_update info dict')\<rparr>))"

subsection \<open>Learner.fit\<close>

text \<open>\<open>torch.sigmoid\<close> and \<open>np.mean\<close>.\<close>

definition sigmoid :: "real \<Rightarrow> real" where
  "sigmoid x = 1 / (1 + exp (- x))"

definition mean :: "real list \<Rightarrow> real" where
  "mean xs = sum_list xs / real (length xs)"

text \<open>
  The label of the validation pass:
  \<open>val_label = (torch.sigmoid(val_pred).cpu().data.numpy() > tresh).astype(int)\<close>.
\<close>

definition val_label :: "real \<Rightarrow> real list \<Rightarrow> nat list" where
  "val_label tresh pred = map (\<lambda>x. if tresh < sigmoid x then 1 else 0) pred"

text \<open>
  The body of the loop over the validation batches, on the accumulators \<open>val_loss\<close>, \<open>tp\<close>,
  \<open>n_targs\<close> and \<open>n_preds\<close>: \<open>tp += sum(val_y + val_label == 2)\<close>, \<open>n_targs += sum(val_y)\<close>,
  \<open>n_preds += sum(val_label)\<close>.
\<close>

definition val_batch_step ::
  "real \<Rightarrow> val_batch \<Rightarrow> real list \<times> real \<times> real \<times> real \<Rightarrow> real list \<times> real \<times> real \<times> real" where
  "val_batch_step tresh b acc =
     (case acc of (val_loss, tp, n_targs, n_preds) \<Rightarrow>
        (let lab = val_label tresh (val_pred b) in
         (val_loss @ [batch_loss b],
          tp + real (length (filter (\<lambda>(y, l). y + real l = 2) (zip (val_y b) lab))),
          n_targs + sum_list (val_y b),
          n_preds + real (sum_list lab))))"

text \<open>The loop over the validation batches, from empty accumulators.\<close>

definition validation_pass :: "real \<Rightarrow> val_batch list \<Rightarrow> real list \<times> real \<times> real \<times> real" where
  "validation_pass tresh batches = fold (val_batch_step tresh) batches ([], 0, 0, 0)"

text \<open>
  The checkpointing rule, the last four lines of the evaluation:
  \<open>if val_record[-1]['f1_score'] >= max_f1: self.save(info); max_f1 = ...;
  no_improve_in_previous_epoch = False\<close>. The F1 compared is the one of the entry that the
  evaluation has just appended to \<open>val_record\<close>, the argument \<open>f1\<close> here.
\<close>

definition checkpoint :: "nat \<Rightarrow> info \<Rightarrow> real \<Rightarrow> fit_state \<Rightarrow> fit_state" where
  "checkpoint e info f1 st =
     (if max_f1 st \<le> f1
      then (save (step st) info st)
             \<lparr>max_f1 := f1, no_improve_in_previous_epoch := False,
              trace := trace st @ [Save e (step st)]\<rparr>
      else st)"

text \<open>The evaluation that runs when \<open>step % eval_every == 0\<close>.\<close>

definition evaluate :: "collaborators \<Rightarrow> real \<Rightarrow> nat \<Rightarrow> fit_state \<Rightarrow> fit_state" where
  "evaluate c tresh e st =
     (case validation_pass tresh (val_dl c (step st)) of
        (val_loss, tp, n_targs, n_preds) \<Rightarrow>
          (let f1 = f1_metric c tp n_targs n_preds;
               st1 = st\<lparr>val_record := val_record st @ [(step st, mean val_loss, f1)]\<rparr>;
               info = format_info
                 [(''best_ep'', real e), (''step'', real (step st)),
                  (''train_loss'', mean (losses st)), (''val_loss'', mean val_loss),
                  (''f1_score'', f1)]
           in checkpoint e info f1 st1))"

text \<open>
  The body of the loop over the training batches of epoch \<open>e\<close>. \<open>step % eval_every\<close> raises
  when \<open>eval_every\<close> is zero; for a non-zero \<open>eval_every\<close> Python's \<open>%\<close> on integers is \<open>mod\<close>.
\<close>

definition train_step ::
  "collaborators \<Rightarrow> int \<Rightarrow> real \<Rightarrow> nat \<Rightarrow> fit_state \<Rightarrow> py_error + fit_state" where
  "train_step c eval_every tresh e st =
     (let s = step st + 1;
          st1 = st\<lparr>step := s,
                 losses := losses st @ [loss_at c s],
                 train_record := train_record st @ [loss_at c s],
                 trace := trace st @ [Batch e s]\<rparr>
      in if eval_every = 0 then Inl ZeroDivisionError
         else if int s mod eval_every = 0 then Inr (evaluate c tresh e st1)
         else Inr st1)"

text \<open>\<open>for train_batch in iter(self.train_dl)\<close>, over the \<open>n\<close> batches of the epoch.\<close>

primrec batch_loop ::
  "collaborators \<Rightarrow> int \<Rightarrow> real \<Rightarrow> nat \<Rightarrow> nat \<Rightarrow> fit_state \<Rightarrow> py_error + fit_state" where
  "batch_loop c eval_every tresh e 0 st = Inr st"
| "batch_loop c eval_every tresh e (Suc n) st =
     (case train_step c eval_every tresh e st of
        Inl err \<Rightarrow> Inl err
      | Inr st' \<Rightarrow> batch_loop c eval_every tresh e n st')"

text \<open>
  The head of the loop over the epochs. The first component of the result says whether
  the loop is left by \<open>break\<close>.
\<close>

definition early_stopping :: "int \<Rightarrow> int \<Rightarrow> nat \<Rightarrow> fit_state \<Rightarrow> bool \<times> fit_state" where
  "early_stopping early_stop warmup_epoch e st =
     (if warmup_epoch \<le> int e then
        (if no_improve_in_previous_epoch st then
           (let st1 = st\<lparr>no_improve_epoch := no_improve_epoch st + 1\<rparr> in
            if early_stop \<le> no_improve_epoch st1 then (True, st1)
            else (False, st1\<lparr>no_improve_in_previous_epoch := True\<rparr>))
         else (False, st\<lparr>no_improve_epoch := 0, no_improve_in_previous_epoch := True\<rparr>))
      else (False, st))"

text \<open>
  \<open>if not fine_tuning and e >= warmup_epoch\<close>: the embedding weights are unfrozen, once.
\<close>

definition fine_tune :: "int \<Rightarrow> nat \<Rightarrow> fit_state \<Rightarrow> fit_state" where
  "fine_tune warmup_epoch e st =
     (if \<not> fine_tuning st \<and> warmup_epoch \<le> int e then st\<lparr>fine_tuning := True\<rparr> else st)"

text \<open>\<open>for e in range(epoch)\<close>, over the epochs that are left.\<close>

fun epoch_loop ::
  "collaborators \<Rightarrow> int \<Rightarrow> real \<Rightarrow> int \<Rightarrow> int \<Rightarrow> nat list \<Rightarrow> fit_state \<Rightarrow> py_error + fit_state" where
  "epoch_loop c eval_every tresh early_stop warmup_epoch [] st = Inr st"
| "epoch_loop c eval_every tresh early_stop warmup_epoch (e # es) st =
     (case early_stopping early_stop warmup_epoch e st of
        (True, st1) \<Rightarrow> Inr st1
      | (False, st1) \<Rightarrow>
          (case batch_loop c eval_every tresh e (train_dl c e) (fine_tune warmup_epoch e st1) of
             Inl err \<Rightarrow> Inl err
           | Inr st2 \<Rightarrow> epoch_loop c eval_every tresh early_stop warmup_epoch es st2))"

text \<open>The local variables at the start of \<open>fit\<close>, over the files as they are found.\<close>

definition init_state :: "files \<Rightarrow> fit_state" where
  "init_state fs =
     \<lparr>best_model_file = best_model_file fs, best_info_file = best_info_file fs,
      subdirs = subdirs fs, records_csv = records_csv fs,
      test_records_csv = test_records_csv fs,
      step = 0, max_f1 = 0, no_improve_epoch = 0, no_improve_in_previous_epoch = False,
      fine_tuning = False, train_record = [], val_record = [], losses = [], trace = []\<rparr>"

text \<open>
  The loop \<open>for e in range(epoch)\<close> of \<open>fit\<close>, from the local variables as \<open>fit\<close> initialises
  them: the part of \<open>fit\<close> before \<open>self.load()\<close>.
\<close>

definition fit_loop ::
  "collaborators \<Rightarrow> int \<Rightarrow> int \<Rightarrow> real \<Rightarrow> int \<Rightarrow> int \<Rightarrow> files \<Rightarrow> py_error + fit_state" where
  "fit_loop c epoch eval_every tresh early_stop warmup_epoch fs =
     epoch_loop c eval_every tresh early_stop warmup_epoch [0..<nat epoch] (init_state fs)"

text \<open>
  \<open>fit(epoch, eval_every, tresh, early_stop, warmup_epoch)\<close>: the loop over \<open>range(epoch)\<close>,
  then \<open>m_info = self.load()\<close>, which raises when no checkpoint exists.
\<close>

definition fit ::
  "collaborators \<Rightarrow> int \<Rightarrow> int \<Rightarrow> real \<Rightarrow> int \<Rightarrow> int \<Rightarrow> files \<Rightarrow> py_error + fit_state" where
  "fit c epoch eval_every tresh early_stop warmup_epoch fs =
     (case fit_loop c epoch eval_every tresh early_stop warmup_epoch fs of
        Inl err \<Rightarrow> Inl err
      | Inr st \<Rightarrow> (case load st of Inl err \<Rightarrow> Inl err | Inr m_info \<Rightarrow> Inr st))"

subsection \<open>Learner.predict\_probs and Learner.predict\_labels\<close>

text \<open>
  What one batch of a validation or test iterator gives under the current model: the raw
  outputs \<open>self.model.forward(x).view(-1)\<close>, the targets (test batches have none) and the
  question identifiers.
\<close>

record pred_batch =
  forward_out :: "real list"
  target :: "nat list"
  qid :: "nat list"

text \<open>
  \<open>predict_probs(is_test)\<close>: the loop over the batches of the chosen iterator, on the
  accumulators \<open>y_pred\<close>, \<open>y_true\<close> and \<open>ids\<close>;
  \<open>y_pred += torch.sigmoid(self.model.forward(x).view(-1))\<close>.
\<close>

definition predict_probs ::
  "pred_batch list \<Rightarrow> pred_batch list \<Rightarrow> bool \<Rightarrow> real list \<times> nat list \<times> nat list" where
  "predict_probs val test is_test =
     (let dl = (if is_test then test else val) in
      fold (\<lambda>batch (y_pred, y_true, ids).
              (y_pred @ map sigmoid (forward_out batch),
               (if \<not> is_test then y_true @ target batch else y_true),
               ids @ qid batch))
        dl ([], [], []))"

text \<open>
  Double precision. A Python float is an IEEE 754 binary64 number, and an arithmetic
  operation on two of them gives the double nearest to the exact result, a tie going to
  the double with the even significand. \<open>fl x\<close> is that double for the exact result \<open>x\<close>:
  with \<open>2 ^ e \<le> \<bar>x\<bar> < 2 ^ (e + 1)\<close>, the multiple of \<open>2 ^ (e - 52)\<close> nearest to \<open>x\<close>, and the
  multiple of \<open>2 ^ (- 1074)\<close> for the subnormal numbers below \<open>2 ^ (- 1022)\<close>. The exponent
  \<open>e\<close> is searched by halving or doubling at most 1100 times, which covers the range of the
  doubles. A result beyond the largest double (an infinity) and \<open>nan\<close> are outside the
  model.
\<close>

definition two_pow :: "int \<Rightarrow> real" where
  "two_pow e = (if 0 \<le> e then 2 ^ nat e else 1 / 2 ^ nat (- e))"

fun binade :: "nat \<Rightarrow> real \<Rightarrow> int \<Rightarrow> int" where
  "binade 0 x e = e"
| "binade (Suc n) x e =
     (if 2 \<le> x then binade n (x / 2) (e + 1)
      else if x < 1 then binade n (2 * x) (e - 1)
      else e)"

definition ulp_exp :: "real \<Rightarrow> int" where
  "ulp_exp x = max (binade 1100 \<bar>x\<bar> 0) (- 1022) - 52"

definition fl :: "real \<Rightarrow> real" where
  "fl x = of_int (round_half_even (x / two_pow (ulp_exp x))) * two_pow (ulp_exp x)"

text \<open>
  \<open>np.arange(start, stop, step)\<close> on Python floats, as NumPy computes it: the length is the
  ceiling of \<open>(stop - start) / step\<close>, where the difference and the quotient are Python
  float operations (the quotient raises \<open>ZeroDivisionError\<close> for a zero step, and a length
  that is not positive gives the empty array); the first element is \<open>start\<close>, the second is
  \<open>next = start + step\<close>, and the element of index \<open>i \<ge> 2\<close> is \<open>start + i * delta\<close> with
  \<open>delta = next - start\<close>, every operation in double precision.
\<close>

definition arange :: "real \<Rightarrow> real \<Rightarrow> real \<Rightarrow> py_error + real list" where
  "arange start stop tr_step =
     (if tr_step = 0 then Inl ZeroDivisionError
      else (let len = nat \<lceil>fl (fl (stop - start) / tr_step)\<rceil>;
                next = fl (start + tr_step);
                delta = fl (next - start)
            in Inr (map (\<lambda>i. if i = 0 then start else if i = 1 then next
                               else fl (start + fl (real i * delta))) [0..<len])))"

text \<open>
  \<open>_choose_tr(self, min_tr, max_tr, tr_step)\<close>, the search of \<open>predict_labels\<close>. The state of
  the loop is the pair of \<open>tr\<close> and \<open>tmp[2]\<close> (the best F1 so far), started at \<open>min_tr\<close> and 0;
  \<open>tmp[0]\<close> is the candidate \<open>c\<close> and \<open>tmp[1]\<close> its score \<open>cur\<close>; \<open>val_probs\<close> is the
  \<open>val_pred\<close> of the source. The scoring function
  \<open>f1_score\<close> of scikit-learn is a parameter.
\<close>

definition choose_tr ::
  "(nat list \<Rightarrow> bool list \<Rightarrow> real) \<Rightarrow> pred_batch list \<Rightarrow> pred_batch list \<Rightarrow>
   real \<Rightarrow> real \<Rightarrow> real \<Rightarrow> py_error + (real \<times> real)" where
  "choose_tr f1_score val test min_tr max_tr tr_step =
     (case predict_probs val test False of
        (val_probs, val_true, ids) \<Rightarrow>
          (case arange min_tr max_tr tr_step of
             Inl err \<Rightarrow> Inl err
           | Inr cs \<Rightarrow>
               Inr (fold (\<lambda>c (tr, best).
                            let cur = f1_score val_true (map (\<lambda>p. c < p) val_probs)
                            in if best < cur then (c, cur) else (tr, best))
                      cs (min_tr, 0))))"

text \<open>
  The score of a candidate threshold \<open>c\<close> in the search: the F1 of the validation targets
  against the validation probabilities thresholded at \<open>c\<close> (strictly).
\<close>

definition tr_score :: "(nat list \<Rightarrow> bool list \<Rightarrow> real) \<Rightarrow> pred_batch list \<Rightarrow> real \<Rightarrow> real" where
  "tr_score f1_score val c =
     f1_score (concat (map target val))
       (map (\<lambda>p. c < p) (map sigmoid (concat (map forward_out val))))"

text \<open>
  The argument \<open>tresh\<close> of \<open>predict_labels\<close>: a number, or a list (which requests the
  search and has to hold the three arguments of \<open>_choose_tr\<close>).
\<close>

datatype tresh_arg = Number real | TrList "real list"

text \<open>The labels of \<open>predict_labels\<close>: \<open>y_label = (np.array(y_pred) >= tresh).astype(int)\<close>.\<close>

definition y_label :: "real \<Rightarrow> real list \<Rightarrow> nat list" where
  "y_label tresh y_pred = map (\<lambda>p. if tresh \<le> p then 1 else 0) y_pred"

definition predict_labels ::
  "(nat list \<Rightarrow> bool list \<Rightarrow> real) \<Rightarrow> pred_batch list \<Rightarrow> pred_batch list \<Rightarrow> bool \<Rightarrow>
   tresh_arg \<Rightarrow> 'a files_scheme \<Rightarrow> py_error + ((nat list \<times> nat list \<times> nat list) \<times> 'a files_scheme)" where
  "predict_labels f1_score val test is_test tresh fs =
     (case predict_probs val test is_test of
        (y_pred, y_true, ids) \<Rightarrow>
          (case tresh of
             Number t \<Rightarrow> Inr ((y_label t y_pred, y_true, ids), fs)
           | TrList l \<Rightarrow>
               (case l of
                  [min_tr, max_tr, tr_step] \<Rightarrow>
                    (case choose_tr f1_score val test min_tr max_tr tr_step of
                       Inl err \<Rightarrow> Inl err
                     | Inr (t, best) \<Rightarrow>
                         (case append_info [(''best_tr'', t), (''best_f1'', best)] fs of
                            Inl err \<Rightarrow> Inl err
                          | Inr fs' \<Rightarrow> Inr ((y_label t y_pred, y_true, ids), fs')))
                | _ \<Rightarrow> Inl TypeError)))"

text \<open>
  The F1 score of binary labels as scikit-learn computes it, for the positive label 1:
  \<open>2 tp / (2 tp + fp + fn)\<close>, and 0 when the denominator is 0. It is the instance of the
  parameter \<open>f1_score\<close> in the concrete searches below.
\<close>

definition f1_score_binary :: "nat list \<Rightarrow> bool list \<Rightarrow> real" where
  "f1_score_binary y_true y_pred =
     (let tp = length (filter (\<lambda>(y, p). y = 1 \<and> p) (zip y_true y_pred));
          fp = length (filter (\<lambda>(y, p). y \<noteq> 1 \<and> p) (zip y_true y_pred));
          fneg = length (filter (\<lambda>(y, p). y = 1 \<and> \<not> p) (zip y_true y_pred))
      in if 2 * tp + fp + fneg = 0 then 0 else 2 * real tp / real (2 * tp + fp + fneg))"

text \<open>
  A validation set of two examples, the first positive and the second negative, in one
  batch, under a model whose raw output is zero on both.
\<close>

definition two_examples :: "pred_batch list" where
  "two_examples = [\<lparr>forward_out = [0, 0], target = [1, 0], qid = [1, 2]\<rparr>]"


subsection \<open>Learner.record\<close>

text \<open>
  \<open>record()\<close>. The date and time (\<open>str_date_time\<close>), the hash (\<open>get_hash\<close>) and the arguments
  of the run (\<open>vars(self.args)\<close>, with the field \<open>mode\<close>) are parameters.
  \<open>param_dict = {'hash': hash, 'subdir': subdir, **param_dict, **info}\<close> is two dictionary
  updates of the two-item dictionary.

  Modelled from the spec: \<open>dict_to_csv\<close> of \<open>utils\<close>, which is not among the source files,
  writes the fields of the mapping it is given, as one table that replaces the file in
  mode \<open>'w'\<close> and as one new row in mode \<open>'a'\<close>; the model keeps the mapping as the row.

  \<open>os.mkdir(subdir)\<close> raises when the directory exists, \<open>torch.load\<close> and \<open>shutil.copy\<close> raise
  when the file is absent, and \<open>self.record_path\<close> only exists for the modes \<open>test\<close> and
  \<open>run\<close>. An exception ends the model's run without a state.
\<close>

definition record_run ::
  "string \<Rightarrow> string \<Rightarrow> (string \<times> cell) list \<Rightarrow> files \<Rightarrow> py_error + files" where
  "record_run date_time hash args fs =
     (let is_test = (map_of args ''mode'' = Some (Str ''test''));
          is_run = (map_of args ''mode'' = Some (Str ''run''));
          subdir = ''./models/'' @ date_time @ (if is_test then ''_test'' else [])
      in if subdir \<in> fst ` set (subdirs fs) then Inl FileExistsError
         else (case best_info_file fs of
                 None \<Rightarrow> Inl FileNotFoundError
               | Some info \<Rightarrow>
                   (let param_dict =
                          dict_update
                            (dict_update [(''hash'', Str hash), (''subdir'', Str subdir)] args)
                            (map (\<lambda>(k, v). (k, Num v)) info)
                    in if \<not> is_test \<and> \<not> is_run then Inl AttributeError
                       else (case best_model_file fs of
                               None \<Rightarrow> Inl FileNotFoundError
                             | Some m \<Rightarrow>
                                 Inr (if is_test
                                      then fs\<lparr>subdirs := subdirs fs @ [(subdir, param_dict, m)],
                                             test_records_csv := test_records_csv fs @ [param_dict]\<rparr>
                                      else fs\<lparr>subdirs := subdirs fs @ [(subdir, param_dict, m)],
                                             records_csv := records_csv fs @ [param_dict]\<rparr>)))))"

subsection \<open>Rounded run info\<close>

text \<open>
  A number is rounded to four decimal places when rounding it again does not change it.
  A run-info record is well formed when its keys are distinct (it is a dictionary) and
  all its values are rounded; the info file is well formed when it is absent or holds a
  well-formed record.
\<close>

definition rounded4 :: "real \<Rightarrow> bool" where
  "rounded4 v = (py_round v 4 = v)"

definition info_ok :: "info \<Rightarrow> bool" where
  "info_ok info = (distinct (map fst info) \<and> list_all (\<lambda>(k, v). rounded4 v) info)"

definition info_file_ok :: "'a files_scheme \<Rightarrow> bool" where
  "info_file_ok fs = (case best_info_file fs of None \<Rightarrow> True | Some info \<Rightarrow> info_ok info)"

text \<open>
  The fields of a run-info record as they stand in a CSV row: every field of the record
  is in the row, with the value of the record.
\<close>

definition row_has_info :: "(string \<times> cell) list \<Rightarrow> info \<Rightarrow> bool" where
  "row_has_info row info = list_all (\<lambda>(k, v). map_of row k = Some (Num v)) info"

text \<open>
  The files after a run whose best checkpoint, taken after 3 steps, has the F1 score 0.6,
  and the arguments of a run in mode \<open>run\<close> with a learning rate that is not a rounded number.
\<close>

definition some_files :: files where
  "some_files =
     \<lparr>best_model_file = Some 3, best_info_file = Some [(''f1_score'', 3 / 5)], subdirs = [],
      records_csv = [], test_records_csv = []\<rparr>"

definition some_args :: "(string \<times> cell) list" where
  "some_args = [(''mode'', Str ''run''), (''lr'', Num (1 / 3))]"

subsection \<open>Reading a run of fit\<close>

text \<open>
  The F1 score that the evaluation of step \<open>s\<close> computes, and the run info that it builds
  before rounding it (in epoch \<open>e\<close>, with the training losses \<open>ls\<close> so far): the two
  values that \<open>evaluate\<close> passes on to the checkpointing rule.
\<close>

definition val_f1 :: "collaborators \<Rightarrow> real \<Rightarrow> nat \<Rightarrow> real" where
  "val_f1 c tresh s =
     (case validation_pass tresh (val_dl c s) of
        (val_loss, tp, n_targs, n_preds) \<Rightarrow> f1_metric c tp n_targs n_preds)"

definition raw_info :: "collaborators \<Rightarrow> real \<Rightarrow> nat \<Rightarrow> nat \<Rightarrow> real list \<Rightarrow> info" where
  "raw_info c tresh e s ls =
     (case validation_pass tresh (val_dl c s) of
        (val_loss, tp, n_targs, n_preds) \<Rightarrow>
          [(''best_ep'', real e), (''step'', real s),
           (''train_loss'', mean ls), (''val_loss'', mean val_loss),
           (''f1_score'', f1_metric c tp n_targs n_preds)])"

text \<open>The events of a trace: the epoch of an event, the batches and the saves of an epoch.\<close>

fun epoch_of :: "event \<Rightarrow> nat" where
  "epoch_of (Batch e s) = e"
| "epoch_of (Save e s) = e"

fun is_save :: "event \<Rightarrow> bool" where
  "is_save (Save e s) = True"
| "is_save (Batch e s) = False"

definition saves_of :: "nat \<Rightarrow> event list \<Rightarrow> event list" where
  "saves_of e evs = filter (\<lambda>ev. is_save ev \<and> epoch_of ev = e) evs"

definition batches_from :: "nat \<Rightarrow> event list \<Rightarrow> event list" where
  "batches_from e evs = filter (\<lambda>ev. \<not> is_save ev \<and> e \<le> epoch_of ev) evs"

definition batches_of :: "nat \<Rightarrow> event list \<Rightarrow> event list" where
  "batches_of e evs = filter (\<lambda>ev. \<not> is_save ev \<and> epoch_of ev = e) evs"

text \<open>
  Modelled from the spec: \<open>f1_metric\<close> of \<open>utils\<close>, which is not among the source files.
  The spec: precision is \<open>tp / n_preds\<close> and recall is \<open>tp / n_targs\<close>, each taken as zero
  when its denominator is zero, and F1 is \<open>2 * precision * recall / (precision + recall)\<close>,
  taken as zero when both are zero. It is the instance of the collaborator \<open>f1_metric\<close> in
  the concrete runs below; the general statements hold for every \<open>f1_metric\<close>.
\<close>

definition f1_metric_spec :: "real \<Rightarrow> real \<Rightarrow> real \<Rightarrow> real" where
  "f1_metric_spec tp n_targs n_preds =
     (let precision = (if n_preds = 0 then 0 else tp / n_preds);
          recall = (if n_targs = 0 then 0 else tp / n_targs)
      in if precision + recall = 0 then 0
         else 2 * precision * recall / (precision + recall))"

text \<open>A file system without any of the files.\<close>

definition no_files :: files where
  "no_files =
     \<lparr>best_model_file = None, best_info_file = None, subdirs = [], records_csv = [],
      test_records_csv = []\<rparr>"

text \<open>
  A validation set of \<open>n\<close> examples of which the first \<open>k\<close> are positive, in one batch, under
  a model whose raw output is zero on every example (so that every probability is
  \<open>1 / 2\<close>).
\<close>

definition flat_val :: "nat \<Rightarrow> nat \<Rightarrow> val_batch list" where
  "flat_val k n =
     [\<lparr>val_pred = replicate n 0, val_y = replicate k 1 @ replicate (n - k) 0, batch_loss = 1\<rparr>]"

text \<open>
  Whether the training step that follows the state \<open>st\<close> ends with a save: the step counts
  for an evaluation and the F1 of that evaluation is at least the best F1 so far.
\<close>

definition saved_at :: "collaborators \<Rightarrow> int \<Rightarrow> real \<Rightarrow> fit_state \<Rightarrow> bool" where
  "saved_at c eval_every tresh st =
     (int (step st + 1) mod eval_every = 0 \<and> max_f1 st \<le> val_f1 c tresh (step st + 1))"

text \<open>
  A concrete run: one training batch for each epoch, an evaluation after every batch when
  \<open>eval_every\<close> is 1; the validation F1 is 1 at step 1 and 1 / 2 at every later step, so no
  evaluation after the first reaches the best F1.
\<close>

definition no_gain_run :: collaborators where
  "no_gain_run =
     \<lparr>train_dl = (\<lambda>e. 1), loss_at = (\<lambda>s. 1),
      val_dl = (\<lambda>s. if s = 1 then flat_val 1 1 else flat_val 1 3),
      f1_metric = f1_metric_spec\<rparr>"

text \<open>
  A concrete run: four training batches in each epoch; the validation F1 of the evaluations
  of steps 1, 2, 3 and 4 is 0.5, 0.5, 0.6 and 0.55.
\<close>

definition tie_run :: collaborators where
  "tie_run =
     \<lparr>train_dl = (\<lambda>e. 4), loss_at = (\<lambda>s. 1),
      val_dl = (\<lambda>s. if s \<le> 2 then flat_val 1 3 else if s = 3 then flat_val 3 7 else flat_val 11 29),
      f1_metric = f1_metric_spec\<rparr>"

text \<open>
  The number of epochs in a row without a save after which the loop over the epochs ends:
  \<open>early_stop\<close>, and 1 when \<open>early_stop\<close> is smaller than 1 (the counter is at least 1 when it
  is compared).
\<close>

definition patience :: "int \<Rightarrow> nat" where
  "patience early_stop = nat (max 1 early_stop)"

text \<open>
  Whether, in the trace \<open>evs\<close>, some \<open>k\<close> epochs in a row that all precede epoch \<open>e\<close>, the
  first of them \<open>warmup_epoch\<close> or later, have no save.
\<close>

definition no_save_window :: "int \<Rightarrow> nat \<Rightarrow> nat \<Rightarrow> event list \<Rightarrow> bool" where
  "no_save_window warmup_epoch k e evs =
     list_ex (\<lambda>a. warmup_epoch \<le> int a \<and> a + k \<le> e
                 \<and> list_all (\<lambda>i. saves_of (a + i) evs = []) [0..<k]) [0..<Suc e]"

text \<open>
  A concrete run: one training batch for each epoch, an evaluation after every batch when
  \<open>eval_every\<close> is 1; the validation F1 is 1 / 2 at every step, so every evaluation reaches
  the best F1 and saves.
\<close>

definition steady_run :: collaborators where
  "steady_run =
     \<lparr>train_dl = (\<lambda>e. 1), loss_at = (\<lambda>s. 1), val_dl = (\<lambda>s. flat_val 1 3),
      f1_metric = f1_metric_spec\<rparr>"

text \<open>
  A concrete run: one training batch for each epoch; the validation F1 is 1 at the steps
  1, 2 and 4 and 1 / 2 at every other step, so the evaluations of the steps 1, 2 and 4
  save and no other does.
\<close>

definition reset_run :: collaborators where
  "reset_run =
     \<lparr>train_dl = (\<lambda>e. 1), loss_at = (\<lambda>s. 1),
      val_dl = (\<lambda>s. if s = 1 \<or> s = 2 \<or> s = 4 then flat_val 1 1 else flat_val 1 3),
      f1_metric = f1_metric_spec\<rparr>"


section \<open>Data pipeline (preprocess.py)\<close>

text \<open>
  The rows of the two CSV files: a train row has the columns \<open>qid\<close>, \<open>question_text\<close> and
  \<open>target\<close>, a test row the columns \<open>qid\<close> and \<open>question_text\<close>.
\<close>

type_synonym train_row = "string \<times> string \<times> nat"
type_synonym test_row = "string \<times> string"

text \<open>
  Modelled from the spec: the building of a vocabulary. \<open>Field.build_vocab\<close> belongs to the
  text-processing library that the repository extends in \<open>my_torchtext\<close>, which is not
  among the source files. The spec: the vocabulary is a bijective mapping between the
  distinct tokens observed across the datasets it is built from and an ordered index, and
  it retains the tokens whose frequency is at least the minimum frequency. The model is
  the list of the retained tokens, each once, in the order of their last occurrence; the
  spec does not fix the order. A dataset is the list of its examples, an example the list
  of its tokens.
\<close>

definition build_vocab :: "string list list list \<Rightarrow> nat \<Rightarrow> string list" where
  "build_vocab datasets min_freq =
     (let tokens = concat (concat datasets)
      in filter (\<lambda>w. min_freq \<le> count_list tokens w) (remdups tokens))"

text \<open>
  The result of \<open>Data.preprocess\<close>: the two datasets, whose text is tokenized by the text
  field, and the vocabularies of the text field and of the identifier field.
\<close>

record data =
  train_examples :: "(string \<times> string list \<times> nat) list"
  test_examples :: "(string \<times> string list) list"
  text_vocab :: "string list"
  qid_vocab :: "string list"

text \<open>
  \<open>Data.preprocess(tokenizer_name)\<close>. The tokenizer that \<open>choose_tokenizer\<close> returns for the
  name is a parameter (\<open>choose\<close> is not among the source files). Modelled from the spec:
  \<open>MyTabularDataset\<close> reads the rows of a file and tokenizes the text column with the
  tokenizer of the text field. The calls of the source are
  \<open>self.text.build_vocab(self.train, self.test, min_freq=1)\<close> and
  \<open>self.qid.build_vocab(self.train, self.test)\<close>, whose minimum frequency is the default 1;
  an identifier is one token.
\<close>

definition preprocess :: "(string \<Rightarrow> string list) \<Rightarrow> train_row list \<Rightarrow> test_row list \<Rightarrow> data" where
  "preprocess tokenizer train_csv test_csv =
     (let train = map (\<lambda>(q, text, t). (q, tokenizer text, t)) train_csv;
          test = map (\<lambda>(q, text). (q, tokenizer text)) test_csv
      in \<lparr>train_examples = train, test_examples = test,
          text_vocab = build_vocab [map (\<lambda>(q, toks, t). toks) train, map (\<lambda>(q, toks). toks) test] 1,
          qid_vocab = build_vocab [map (\<lambda>(q, toks, t). [q]) train, map (\<lambda>(q, toks). [q]) test] 1\<rparr>)"

text \<open>The tokens of the two datasets.\<close>

definition train_tokens :: "data \<Rightarrow> string set" where
  "train_tokens d = (\<Union>(q, toks, t)\<in>set (train_examples d). set toks)"

definition test_tokens :: "data \<Rightarrow> string set" where
  "test_tokens d = (\<Union>(q, toks)\<in>set (test_examples d). set toks)"

section \<open>Properties of the tokenizers\<close>

lemma split_on_not_Nil: "split_on d xs \<noteq> []"
  by (induction xs) (auto split: list.splits)

lemma join_space_Cons_Cons: "join_space ((c # w) # ws) = c # join_space (w # ws)"
  by (cases ws) simp_all

lemma join_space_split_on: "join_space (split_on CHR '' '' xs) = xs"
proof (induction xs)
  case Nil
  show ?case by simp
next
  case (Cons c cs)
  obtain w ws where s: "split_on CHR '' '' cs = w # ws"
    using split_on_not_Nil [of "CHR '' ''" cs] by (cases "split_on CHR '' '' cs") auto
  from Cons s show ?case
    by (simp add: join_space_Cons_Cons)
qed

lemma split_on_append_sep: "split_on d (xs @ d # ys) = split_on d xs @ split_on d ys"
proof (induction xs)
  case Nil
  show ?case by simp
next
  case (Cons c cs)
  obtain w ws where s: "split_on d cs = w # ws"
    using split_on_not_Nil [of d cs] by (cases "split_on d cs") auto
  from Cons s show ?case by simp
qed

lemma length_split_on: "length (split_on d xs) = Suc (count_list xs d)"
proof (induction xs)
  case Nil
  show ?case by simp
next
  case (Cons c cs)
  obtain w ws where s: "split_on d cs = w # ws"
    using split_on_not_Nil [of d cs] by (cases "split_on d cs") auto
  from Cons s show ?case by auto
qed

lemma concat_split_on: "concat (split_on d xs) = filter (\<lambda>c. c \<noteq> d) xs"
proof (induction xs)
  case Nil
  show ?case by simp
next
  case (Cons c cs)
  obtain w ws where s: "split_on d cs = w # ws"
    using split_on_not_Nil [of d cs] by (cases "split_on d cs") auto
  from Cons s show ?case by auto
qed

lemma punct_search_None: "(punct_search ss = None) = (\<forall>c\<in>set ss. \<not> punct c)"
  by (induction ss) (auto split: option.splits)

lemma punct_search_first:
  "\<forall>x\<in>set pre. \<not> punct x \<Longrightarrow> punct c \<Longrightarrow> punct_search (pre @ c # suf) = Some (length pre)"
  by (induction pre) auto

lemma extend_tokens_concat: "extend_tokens tokens sss = tokens @ concat (map ss_tokens sss)"
  by (induction sss arbitrary: tokens) auto

lemma ss_tokens_no_punct: "\<forall>c\<in>set ss. \<not> punct c \<Longrightarrow> ss_tokens ss = [ss]"
  using punct_search_None [of ss] by (simp add: ss_tokens_def)

lemma ss_tokens_first_punct:
  "\<forall>x\<in>set pre. \<not> punct x \<Longrightarrow> punct c \<Longrightarrow>
   ss_tokens (pre @ c # suf) = filter (\<lambda>t. t \<noteq> []) [pre, [c], suf]"
  by (simp add: ss_tokens_def punct_search_first)

lemma punct_chars:
  "punct c = (c \<in> {CHR '','', CHR ''!'', CHR ''.'', CHR ''?'', CHR ''('', CHR '')''})"
  by (auto simp: punct_def)

lemma CustomTokenizer_hello_world:
  "CustomTokenizer ''hello,world'' = [''hello'', '','', ''world'']"
  by (simp add: CustomTokenizer_def ss_tokens_def punct_def)

lemma CustomTokenizer_no_punctuation:
  "CustomTokenizer ''no punctuation here'' = [''no'', ''punctuation'', ''here'']"
  by (simp add: CustomTokenizer_def ss_tokens_def punct_def)

text \<open>
  C4. The punctuation-aware tokenizer is the concatenation, over the pieces of the text
  between single spaces, of what \<open>ss_tokens\<close> makes of each piece. The marks are the six
  characters \<open>, ! . ? ( )\<close>. A piece without a mark is one token, unchanged. A piece whose
  first mark is \<open>c\<close>, after a mark-free prefix \<open>pre\<close> and before a suffix \<open>suf\<close> (which may
  hold further marks), gives the prefix, the mark alone and the suffix, without the empty
  ones among them. \<open>"hello,world"\<close> gives \<open>["hello", ",", "world"]\<close> and
  \<open>"no punctuation here"\<close> gives \<open>["no", "punctuation", "here"]\<close>.
\<close>

theorem CustomTokenizer_splits_at_first_punct:
  "CustomTokenizer text = concat (map ss_tokens (split_on CHR '' '' text))
   \<and> punct c = (c \<in> {CHR '','', CHR ''!'', CHR ''.'', CHR ''?'', CHR ''('', CHR '')''})
   \<and> ((\<forall>x\<in>set ss. \<not> punct x) \<longrightarrow> ss_tokens ss = [ss])
   \<and> ((\<forall>x\<in>set pre. \<not> punct x) \<and> punct c \<longrightarrow>
        ss_tokens (pre @ c # suf) = filter (\<lambda>t. t \<noteq> []) [pre, [c], suf])
   \<and> CustomTokenizer ''hello,world'' = [''hello'', '','', ''world'']
   \<and> CustomTokenizer ''no punctuation here'' = [''no'', ''punctuation'', ''here'']"
proof -
  have "CustomTokenizer text = concat (map ss_tokens (split_on CHR '' '' text))"
    by (simp add: CustomTokenizer_def extend_tokens_concat)
  moreover have "(\<forall>x\<in>set ss. \<not> punct x) \<longrightarrow> ss_tokens ss = [ss]"
    using ss_tokens_no_punct [of ss] by blast
  moreover have "(\<forall>x\<in>set pre. \<not> punct x) \<and> punct c \<longrightarrow>
      ss_tokens (pre @ c # suf) = filter (\<lambda>t. t \<noteq> []) [pre, [c], suf]"
    using ss_tokens_first_punct [of pre c suf] by blast
  ultimately show ?thesis
    using punct_chars [of c] CustomTokenizer_hello_world CustomTokenizer_no_punctuation
    by blast
qed

theorem CustomTokenizer_splits_at_first_punct_witness:
  "filter punct ''here'' = [] \<and> ss_tokens ''here'' = [''here'']
   \<and> filter punct ''wait'' = [] \<and> punct CHR ''.''
   \<and> ss_tokens ''wait...'' = [''wait'', ''.'', ''..'']
   \<and> CustomTokenizer ''wait... really?'' = [''wait'', ''.'', ''..'', ''really'', ''?'']"
proof -
  have a: "\<forall>x\<in>set ''here''. \<not> punct x"
    by (simp add: punct_def)
  have b: "(\<forall>x\<in>set ''wait''. \<not> punct x) \<and> punct CHR ''.''"
    by (simp add: punct_def)
  note t = CustomTokenizer_splits_at_first_punct
    [of "''wait... really?''" "CHR ''.''" "''here''" "''wait''" "''..''"]
  have c: "ss_tokens ''here'' = [''here'']"
    using t a by blast
  have d: "ss_tokens ''wait...'' = [''wait'', ''.'', ''..'']"
    using t b by simp
  have e: "ss_tokens ''really?'' = [''really'', ''?'']"
    by (simp add: ss_tokens_def punct_def)
  have "CustomTokenizer ''wait... really?'' = concat (map ss_tokens [''wait...'', ''really?''])"
    using t by simp
  with b c d e show ?thesis by (simp add: punct_def)
qed

text \<open>
  C8. The whitespace tokenizer cuts the text at every space and nowhere else: the tokens
  are the text without its spaces, in order; there is one more token than there are
  spaces, so nothing is filtered; two consecutive spaces give an empty token between the
  tokens of the text before and the tokens of the text after. Joining the tokens with
  single spaces gives the text back; this holds for every text, in particular for a text
  whose separators are single spaces and that has no leading or trailing space.
\<close>

theorem WhitespaceTokenizer_join_roundtrip:
  "concat (WhitespaceTokenizer text) = filter (\<lambda>c. c \<noteq> CHR '' '') text
   \<and> length (WhitespaceTokenizer text) = Suc (count_list text CHR '' '')
   \<and> WhitespaceTokenizer (xs @ ''  '' @ ys)
       = WhitespaceTokenizer xs @ [[]] @ WhitespaceTokenizer ys
   \<and> join_space (WhitespaceTokenizer text) = text"
proof -
  have "split_on CHR '' '' (xs @ CHR '' '' # CHR '' '' # ys)
        = split_on CHR '' '' xs @ split_on CHR '' '' (CHR '' '' # ys)"
    by (rule split_on_append_sep)
  then have "WhitespaceTokenizer (xs @ ''  '' @ ys)
       = WhitespaceTokenizer xs @ [[]] @ WhitespaceTokenizer ys"
    by (simp add: WhitespaceTokenizer_def)
  then show ?thesis
    by (simp add: WhitespaceTokenizer_def concat_split_on length_split_on join_space_split_on)
qed

lemma lower_spacy_Hello_World:
  "lower_spacy WhitespaceTokenizer ''Hello World'' = [''hello'', ''world'']"
  by code_simp

lemma LowerSpacy_Hello_World:
  "LowerSpacy WhitespaceTokenizer ''Hello World'' ''Hello World'' = [''Hello'', ''World'']"
  by (simp add: LowerSpacy_def WhitespaceTokenizer_def)

text \<open>
  C6. The callable object does not behave as the plain function does. Whatever \<open>text\<close>
  it is called with, \<open>LowerSpacy\<close> returns the bare tokenizer, which never lowercases.
  With a tokenizer that cuts at spaces, as spaCy does on this input, the plain function
  turns \<open>"Hello World"\<close> into \<open>["hello", "world"]\<close> and the function returned by the
  callable object turns it into \<open>["Hello", "World"]\<close>.
\<close>

theorem LowerSpacy_does_not_lowercase:
  "LowerSpacy tokenizer text = tokenizer
   \<and> lower_spacy WhitespaceTokenizer ''Hello World'' = [''hello'', ''world'']
   \<and> LowerSpacy WhitespaceTokenizer ''Hello World'' ''Hello World'' = [''Hello'', ''World'']"
  using lower_spacy_Hello_World LowerSpacy_Hello_World by (simp add: LowerSpacy_def)

section \<open>Properties of the model registry\<close>

lemma model_dict_length: "length model_dict = 14"
  by (simp add: model_dict_def)

lemma model_dict_distinct: "distinct (map fst model_dict)"
  by (simp add: model_dict_def)

lemma model_dict_nonempty: "list_all (\<lambda>(k, r, a). r \<noteq> [] \<and> a \<noteq> []) model_dict"
  by (simp add: model_dict_def)

lemma resolve_defined:
  assumes "k \<in> fst ` set model_dict"
  shows "\<exists>r a. resolve k = Inr (r, a) \<and> r \<noteq> [] \<and> a \<noteq> []"
proof -
  from assms obtain v where v: "map_of model_dict k = Some v"
    by (cases "map_of model_dict k") (auto simp: map_of_eq_None_iff)
  obtain r a where ra: "v = (r, a)" by (cases v)
  from v have "(k, v) \<in> set model_dict" by (rule map_of_SomeD)
  with model_dict_nonempty ra have "r \<noteq> [] \<and> a \<noteq> []"
    by (auto simp: list_all_iff)
  with v ra show ?thesis by (simp add: resolve_def)
qed

lemma resolve_undefined: "k \<notin> fst ` set model_dict \<Longrightarrow> resolve k = Inl KeyError"
  by (simp add: resolve_def map_of_eq_None_iff [THEN iffD2])

text \<open>
  C9. The registry has exactly fourteen entries, under fourteen different keys. Resolving
  a key of the registry gives a pair of a non-empty run identifier and a non-empty
  argument string; resolving any other key fails with \<open>KeyError\<close>, and no default is
  returned.
\<close>

theorem model_dict_fourteen_entries_resolve:
  "length model_dict = 14 \<and> distinct (map fst model_dict)
   \<and> (k \<in> fst ` set model_dict \<longrightarrow>
        (\<exists>r a. resolve k = Inr (r, a) \<and> r \<noteq> [] \<and> a \<noteq> []))
   \<and> (k \<notin> fst ` set model_dict \<longrightarrow> resolve k = Inl KeyError)"
  using model_dict_length model_dict_distinct resolve_defined [of k] resolve_undefined [of k]
  by blast

theorem model_dict_fourteen_entries_resolve_witness:
  "''glove'' \<in> fst ` set model_dict
   \<and> resolve ''glove'' = Inr (''Jan_10_2019__22:10:15'', ''-es 2 -e 9 -hd 150'')
   \<and> ''bert'' \<notin> fst ` set model_dict
   \<and> resolve ''bert'' = Inl KeyError"
proof -
  have a: "''glove'' \<in> fst ` set model_dict"
    by (simp add: model_dict_def)
  have b: "''bert'' \<notin> fst ` set model_dict"
    by (simp add: model_dict_def)
  from a model_dict_fourteen_entries_resolve [of "''glove''"]
  obtain r a' where r: "resolve ''glove'' = Inr (r, a')" by blast
  have "resolve ''glove'' = Inr (''Jan_10_2019__22:10:15'', ''-es 2 -e 9 -hd 150'')"
    by (simp add: resolve_def model_dict_def)
  moreover from b model_dict_fourteen_entries_resolve [of "''bert''"]
  have "resolve ''bert'' = Inl KeyError" by blast
  ultimately show ?thesis using a b by blast
qed

section \<open>Properties of Learner.fit\<close>

lemma evaluate_checkpoint:
  "evaluate c tresh e st =
     checkpoint e (format_info (raw_info c tresh e (step st) (losses st)))
       (val_f1 c tresh (step st))
       (st\<lparr>val_record := val_record st @
          [(step st, mean (fst (validation_pass tresh (val_dl c (step st)))), val_f1 c tresh (step st))]\<rparr>)"
  by (simp add: evaluate_def val_f1_def raw_info_def Let_def split: prod.splits)

lemma checkpoint_fields:
  "step (checkpoint e i f st) = step st"
  "no_improve_epoch (checkpoint e i f st) = no_improve_epoch st"
  "fine_tuning (checkpoint e i f st) = fine_tuning st"
  "trace (checkpoint e i f st) = trace st @ (if max_f1 st \<le> f then [Save e (step st)] else [])"
  "no_improve_in_previous_epoch (checkpoint e i f st)
     = (no_improve_in_previous_epoch st \<and> \<not> max_f1 st \<le> f)"
  "max_f1 (checkpoint e i f st) = (if max_f1 st \<le> f then f else max_f1 st)"
  "best_info_file (checkpoint e i f st) = (if max_f1 st \<le> f then Some i else best_info_file st)"
  "best_model_file (checkpoint e i f st)
     = (if max_f1 st \<le> f then Some (step st) else best_model_file st)"
  by (simp_all add: checkpoint_def save_def)

lemma train_step_fields:
  assumes "train_step c eval_every tresh e st = Inr st'"
  shows "eval_every \<noteq> 0"
    and "step st' = step st + 1"
    and "no_improve_epoch st' = no_improve_epoch st"
    and "fine_tuning st' = fine_tuning st"
    and "trace st' = trace st @ Batch e (step st + 1) #
           (if saved_at c eval_every tresh st then [Save e (step st + 1)] else [])"
    and "no_improve_in_previous_epoch st'
           = (no_improve_in_previous_epoch st \<and> \<not> saved_at c eval_every tresh st)"
    and "max_f1 st' = (if saved_at c eval_every tresh st then val_f1 c tresh (step st + 1) else max_f1 st)"
  using assms
  by (auto simp: train_step_def Let_def evaluate_checkpoint checkpoint_fields saved_at_def
      split: if_splits)

lemma batch_loop_events:
  "batch_loop c eval_every tresh e n st = Inr st' \<Longrightarrow>
   \<exists>evs. trace st' = trace st @ evs \<and> (\<forall>x\<in>set evs. epoch_of x = e)
     \<and> no_improve_in_previous_epoch st'
         = (no_improve_in_previous_epoch st \<and> \<not> (\<exists>x\<in>set evs. is_save x))
     \<and> no_improve_epoch st' = no_improve_epoch st
     \<and> fine_tuning st' = fine_tuning st
     \<and> (0 < n \<longrightarrow> (\<exists>x\<in>set evs. \<not> is_save x))"
proof (induction n arbitrary: st)
  case 0
  then show ?case by simp
next
  case (Suc n)
  from Suc.prems obtain st1 where
    s1: "train_step c eval_every tresh e st = Inr st1" and
    s2: "batch_loop c eval_every tresh e n st1 = Inr st'"
    by (auto split: sum.splits)
  from Suc.IH [OF s2] obtain evs where
    evs: "trace st' = trace st1 @ evs" "\<forall>x\<in>set evs. epoch_of x = e"
      "no_improve_in_previous_epoch st'
         = (no_improve_in_previous_epoch st1 \<and> \<not> (\<exists>x\<in>set evs. is_save x))"
      "no_improve_epoch st' = no_improve_epoch st1"
      "fine_tuning st' = fine_tuning st1"
    by blast
  let ?new = "Batch e (step st + 1) #
      (if saved_at c eval_every tresh st then [Save e (step st + 1)] else []) @ evs"
  have "trace st' = trace st @ ?new"
    using evs(1) train_step_fields(5) [OF s1] by simp
  moreover have "\<forall>x\<in>set ?new. epoch_of x = e"
    using evs(2) by auto
  moreover have "no_improve_in_previous_epoch st'
         = (no_improve_in_previous_epoch st \<and> \<not> (\<exists>x\<in>set ?new. is_save x))"
    using evs(3) train_step_fields(6) [OF s1] by auto
  moreover have "no_improve_epoch st' = no_improve_epoch st"
    using evs(4) train_step_fields(3) [OF s1] by simp
  moreover have "fine_tuning st' = fine_tuning st"
    using evs(5) train_step_fields(4) [OF s1] by simp
  moreover have "\<exists>x\<in>set ?new. \<not> is_save x"
    by simp
  ultimately show ?case by blast
qed

lemma early_stopping_before_warmup:
  "int e < warmup_epoch \<Longrightarrow> early_stopping early_stop warmup_epoch e st = (False, st)"
  by (simp add: early_stopping_def)

lemma early_stopping_flag_set:
  "warmup_epoch \<le> int e \<Longrightarrow> no_improve_in_previous_epoch st \<Longrightarrow>
   early_stopping early_stop warmup_epoch e st
     = (early_stop \<le> no_improve_epoch st + 1, st\<lparr>no_improve_epoch := no_improve_epoch st + 1\<rparr>)"
  by (simp add: early_stopping_def Let_def)

lemma early_stopping_flag_clear:
  "warmup_epoch \<le> int e \<Longrightarrow> \<not> no_improve_in_previous_epoch st \<Longrightarrow>
   early_stopping early_stop warmup_epoch e st
     = (False, st\<lparr>no_improve_epoch := 0, no_improve_in_previous_epoch := True\<rparr>)"
  by (simp add: early_stopping_def)

lemma early_stopping_fields:
  assumes "early_stopping early_stop warmup_epoch e st = (b, st1)"
  shows "trace st1 = trace st"
    and "0 \<le> no_improve_epoch st \<Longrightarrow> 0 \<le> no_improve_epoch st1"
    and "warmup_epoch \<le> int e \<Longrightarrow> \<not> b \<Longrightarrow> no_improve_in_previous_epoch st1"
    and "int e < warmup_epoch \<Longrightarrow> no_improve_in_previous_epoch st1 = no_improve_in_previous_epoch st"
    and "\<not> no_improve_in_previous_epoch st \<Longrightarrow> \<not> b"
  using assms by (auto simp: early_stopping_def Let_def split: if_splits)

lemma fine_tune_fields:
  "trace (fine_tune w e st) = trace st"
  "no_improve_epoch (fine_tune w e st) = no_improve_epoch st"
  "no_improve_in_previous_epoch (fine_tune w e st) = no_improve_in_previous_epoch st"
  by (simp_all add: fine_tune_def)

lemma epoch_loop_Cons_Inr:
  assumes "epoch_loop c eval_every tresh early_stop warmup_epoch (e # es) st = Inr st'"
  obtains st1 where "early_stopping early_stop warmup_epoch e st = (True, st1)" "st' = st1"
  | st1 st2 where "early_stopping early_stop warmup_epoch e st = (False, st1)"
      "batch_loop c eval_every tresh e (train_dl c e) (fine_tune warmup_epoch e st1) = Inr st2"
      "epoch_loop c eval_every tresh early_stop warmup_epoch es st2 = Inr st'"
  using assms by (auto split: prod.splits bool.splits sum.splits)

lemma epoch_loop_events:
  "epoch_loop c eval_every tresh early_stop warmup_epoch es st = Inr st' \<Longrightarrow>
   \<exists>evs. trace st' = trace st @ evs \<and> (\<forall>x\<in>set evs. epoch_of x \<in> set es)"
proof (induction es arbitrary: st)
  case Nil
  then show ?case by simp
next
  case (Cons e es)
  from Cons.prems show ?case
  proof (cases rule: epoch_loop_Cons_Inr)
    case (1 st1)
    then show ?thesis using early_stopping_fields(1) by fastforce
  next
    case (2 st1 st2)
    from batch_loop_events [OF 2(2)] obtain evs1 where
      e1: "trace st2 = trace st1 @ evs1" "\<forall>x\<in>set evs1. epoch_of x = e"
      by (auto simp: fine_tune_fields)
    from Cons.IH [OF 2(3)] obtain evs2 where
      e2: "trace st' = trace st2 @ evs2" "\<forall>x\<in>set evs2. epoch_of x \<in> set es"
      by blast
    have "trace st' = trace st @ (evs1 @ evs2)"
      using e1(1) e2(1) early_stopping_fields(1) [OF 2(1)] by simp
    moreover have "\<forall>x\<in>set (evs1 @ evs2). epoch_of x \<in> set (e # es)"
      using e1(2) e2(2) by auto
    ultimately show ?thesis by blast
  qed
qed

lemma epoch_loop_patience:
  assumes "epoch_loop c eval_every tresh early_stop warmup_epoch [a..<N] st = Inr st'"
    and "no_improve_in_previous_epoch st"
    and "warmup_epoch \<le> int a"
    and "early_stop \<le> no_improve_epoch st + 1 + int j"
    and "trace st' = trace st @ evs"
    and "\<forall>x\<in>set evs. is_save x \<longrightarrow> epoch_of x < a \<or> a + j \<le> epoch_of x"
  shows "\<forall>x\<in>set evs. epoch_of x < a + j"
  using assms
proof (induction j arbitrary: a st evs)
  case 0
  show ?case
  proof (cases "a < N")
    case False
    with "0.prems"(1,5) show ?thesis by simp
  next
    case True
    then have l: "[a..<N] = a # [Suc a..<N]" by (rule upt_conv_Cons)
    have h: "early_stopping early_stop warmup_epoch a st
        = (True, st\<lparr>no_improve_epoch := no_improve_epoch st + 1\<rparr>)"
      using early_stopping_flag_set [OF "0.prems"(3,2), of early_stop] "0.prems"(4) by simp
    from "0.prems"(1) have "st' = st\<lparr>no_improve_epoch := no_improve_epoch st + 1\<rparr>"
      unfolding l by (simp add: h)
    with "0.prems"(5) show ?thesis by simp
  qed
next
  case (Suc j)
  show ?case
  proof (cases "a < N")
    case False
    with Suc.prems(1,5) show ?thesis by simp
  next
    case True
    then have l: "[a..<N] = a # [Suc a..<N]" by (rule upt_conv_Cons)
    from Suc.prems(1) [unfolded l] show ?thesis
    proof (cases rule: epoch_loop_Cons_Inr)
      case (1 st1)
      with Suc.prems(5) early_stopping_fields(1) [OF 1(1)] show ?thesis by simp
    next
      case (2 st1 st2)
      have st1: "st1 = st\<lparr>no_improve_epoch := no_improve_epoch st + 1\<rparr>"
        using early_stopping_flag_set [OF Suc.prems(3,2), of early_stop] 2(1) by simp
      from batch_loop_events [OF 2(2)] obtain evs1 where e1:
        "trace st2 = trace st @ evs1" "\<forall>x\<in>set evs1. epoch_of x = a"
        "no_improve_in_previous_epoch st2 = (\<not> (\<exists>x\<in>set evs1. is_save x))"
        "no_improve_epoch st2 = no_improve_epoch st + 1"
        using Suc.prems(2) by (auto simp: fine_tune_fields st1)
      from epoch_loop_events [OF 2(3)] obtain evs2 where e2:
        "trace st' = trace st2 @ evs2" by blast
      have evs: "evs = evs1 @ evs2"
        using e1(1) e2 Suc.prems(5) by simp
      have nosave: "\<not> (\<exists>x\<in>set evs1. is_save x)"
        using Suc.prems(6) e1(2) evs by fastforce
      have "\<forall>x\<in>set evs2. epoch_of x < Suc a + j"
      proof (rule Suc.IH [OF 2(3) _ _ _ e2])
        show "no_improve_in_previous_epoch st2" using e1(3) nosave by simp
        show "warmup_epoch \<le> int (Suc a)" using Suc.prems(3) by simp
        show "early_stop \<le> no_improve_epoch st2 + 1 + int j"
          using Suc.prems(4) e1(4) by simp
        show "\<forall>x\<in>set evs2. is_save x \<longrightarrow> epoch_of x < Suc a \<or> Suc a + j \<le> epoch_of x"
          using Suc.prems(6) evs by auto
      qed
      with e1(2) evs show ?thesis by auto
    qed
  qed
qed

lemma epoch_loop_early_stop:
  assumes "epoch_loop c eval_every tresh early_stop warmup_epoch [a..<N] st = Inr st'"
    and "0 \<le> no_improve_epoch st"
    and "e - a = d" and "a \<le> e"
    and "warmup_epoch \<le> int e"
    and "early_stop \<le> int k" and "0 < k"
    and "trace st' = trace st @ evs"
    and "\<forall>x\<in>set evs. is_save x \<longrightarrow> epoch_of x < e \<or> e + k \<le> epoch_of x"
  shows "\<forall>x\<in>set evs. epoch_of x < e + k"
  using assms
proof (induction d arbitrary: a st evs)
  case 0
  then have ae: "a = e" by simp
  show ?case
  proof (cases "a < N")
    case False
    with "0.prems"(1,8) show ?thesis by simp
  next
    case True
    then have l: "[a..<N] = a # [Suc a..<N]" by (rule upt_conv_Cons)
    from "0.prems"(1) [unfolded l] show ?thesis
    proof (cases rule: epoch_loop_Cons_Inr)
      case (1 st1)
      with "0.prems"(8) early_stopping_fields(1) [OF 1(1)] show ?thesis by simp
    next
      case (2 st1 st2)
      have f1: "no_improve_in_previous_epoch st1"
        using early_stopping_fields(3) [OF 2(1)] "0.prems"(5) ae by simp
      have c1: "0 \<le> no_improve_epoch st1"
        using early_stopping_fields(2) [OF 2(1)] "0.prems"(2) by simp
      from batch_loop_events [OF 2(2)] obtain evs1 where e1:
        "trace st2 = trace st @ evs1" "\<forall>x\<in>set evs1. epoch_of x = a"
        "no_improve_in_previous_epoch st2 = (\<not> (\<exists>x\<in>set evs1. is_save x))"
        "no_improve_epoch st2 = no_improve_epoch st1"
        using f1 early_stopping_fields(1) [OF 2(1)] by (auto simp: fine_tune_fields)
      from epoch_loop_events [OF 2(3)] obtain evs2 where e2:
        "trace st' = trace st2 @ evs2" by blast
      have evs: "evs = evs1 @ evs2"
        using e1(1) e2 "0.prems"(8) by simp
      have nosave: "\<not> (\<exists>x\<in>set evs1. is_save x)"
        using "0.prems"(9) "0.prems"(7) e1(2) evs ae by fastforce
      have "\<forall>x\<in>set evs2. epoch_of x < Suc a + (k - 1)"
      proof (rule epoch_loop_patience [OF 2(3) _ _ _ e2])
        show "no_improve_in_previous_epoch st2" using e1(3) nosave by simp
        show "warmup_epoch \<le> int (Suc a)" using "0.prems"(5) ae by simp
        show "early_stop \<le> no_improve_epoch st2 + 1 + int (k - 1)"
          using "0.prems"(6,7) e1(4) c1 by simp
        show "\<forall>x\<in>set evs2. is_save x \<longrightarrow> epoch_of x < Suc a \<or> Suc a + (k - 1) \<le> epoch_of x"
          using "0.prems"(9,7) evs ae by auto
      qed
      with e1(2) evs ae "0.prems"(7) show ?thesis by auto
    qed
  qed
next
  case (Suc d)
  then have ae: "a < e" by simp
  show ?case
  proof (cases "a < N")
    case False
    with Suc.prems(1,8) show ?thesis by simp
  next
    case True
    then have l: "[a..<N] = a # [Suc a..<N]" by (rule upt_conv_Cons)
    from Suc.prems(1) [unfolded l] show ?thesis
    proof (cases rule: epoch_loop_Cons_Inr)
      case (1 st1)
      with Suc.prems(8) early_stopping_fields(1) [OF 1(1)] show ?thesis by simp
    next
      case (2 st1 st2)
      have c1: "0 \<le> no_improve_epoch st1"
        using early_stopping_fields(2) [OF 2(1)] Suc.prems(2) by simp
      from batch_loop_events [OF 2(2)] obtain evs1 where e1:
        "trace st2 = trace st @ evs1" "\<forall>x\<in>set evs1. epoch_of x = a"
        "no_improve_epoch st2 = no_improve_epoch st1"
        using early_stopping_fields(1) [OF 2(1)] by (auto simp: fine_tune_fields)
      from epoch_loop_events [OF 2(3)] obtain evs2 where e2:
        "trace st' = trace st2 @ evs2" by blast
      have evs: "evs = evs1 @ evs2"
        using e1(1) e2 Suc.prems(8) by simp
      have "\<forall>x\<in>set evs2. epoch_of x < e + k"
      proof (rule Suc.IH [OF 2(3) _ _ _ Suc.prems(5,6,7) e2])
        show "0 \<le> no_improve_epoch st2" using c1 e1(3) by simp
        show "e - Suc a = d" using Suc.prems(3) by simp
        show "Suc a \<le> e" using ae by simp
        show "\<forall>x\<in>set evs2. is_save x \<longrightarrow> epoch_of x < e \<or> e + k \<le> epoch_of x"
          using Suc.prems(9) evs by auto
      qed
      with e1(2) evs ae show ?thesis by auto
    qed
  qed
qed

lemma epoch_loop_reaches_warmup:
  assumes "epoch_loop c eval_every tresh early_stop warmup_epoch [a..<N] st = Inr st'"
    and "\<not> no_improve_in_previous_epoch st"
    and "e - a = d" and "a \<le> e"
    and "int e \<le> warmup_epoch" and "e < N" and "0 < train_dl c e"
  shows "\<exists>x\<in>set (trace st'). \<not> is_save x \<and> epoch_of x = e"
  using assms
proof (induction d arbitrary: a st)
  case 0
  then have ae: "a = e" by simp
  with "0.prems"(6) have l: "[a..<N] = a # [Suc a..<N]" by (simp add: upt_conv_Cons)
  from "0.prems"(1) [unfolded l] show ?case
  proof (cases rule: epoch_loop_Cons_Inr)
    case (1 st1)
    with early_stopping_fields(5) [OF 1(1)] "0.prems"(2) show ?thesis by simp
  next
    case (2 st1 st2)
    from batch_loop_events [OF 2(2)] "0.prems"(7) ae obtain evs1 x where e1:
      "trace st2 = trace (fine_tune warmup_epoch a st1) @ evs1" "\<forall>x\<in>set evs1. epoch_of x = a"
      "x \<in> set evs1" "\<not> is_save x"
      by auto
    from epoch_loop_events [OF 2(3)] obtain evs2 where e2:
      "trace st' = trace st2 @ evs2" by blast
    from e1 e2 ae show ?thesis by auto
  qed
next
  case (Suc d)
  then have ae: "a < e" by simp
  with Suc.prems(6) have l: "[a..<N] = a # [Suc a..<N]" by (simp add: upt_conv_Cons)
  from Suc.prems(1) [unfolded l] show ?case
  proof (cases rule: epoch_loop_Cons_Inr)
    case (1 st1)
    with early_stopping_fields(5) [OF 1(1)] Suc.prems(2) show ?thesis by simp
  next
    case (2 st1 st2)
    have "\<not> no_improve_in_previous_epoch st1"
      using early_stopping_fields(4) [OF 2(1)] Suc.prems(2,5) ae by simp
    with batch_loop_events [OF 2(2)] have f2: "\<not> no_improve_in_previous_epoch st2"
      by (auto simp: fine_tune_fields)
    show ?thesis
    proof (rule Suc.IH [OF 2(3) f2 _ _ Suc.prems(5,6,7)])
      show "e - Suc a = d" using Suc.prems(3) by simp
      show "Suc a \<le> e" using ae by simp
    qed
  qed
qed

lemma fit_Inr:
  "fit c epoch eval_every tresh early_stop warmup_epoch fs = Inr st \<Longrightarrow>
   epoch_loop c eval_every tresh early_stop warmup_epoch [0..<nat epoch] (init_state fs) = Inr st"
  by (auto simp: fit_def fit_loop_def split: sum.splits)

lemma init_state_fields:
  "trace (init_state fs) = []"
  "no_improve_epoch (init_state fs) = 0"
  "no_improve_in_previous_epoch (init_state fs) = False"
  "best_info_file (init_state fs) = best_info_file fs"
  by (simp_all add: init_state_def)

lemma sigmoid_0: "sigmoid 0 = 1 / 2"
  by (simp add: sigmoid_def)

lemma val_label_flat: "tresh < 1 / 2 \<Longrightarrow> val_label tresh (replicate n 0) = replicate n 1"
  by (simp add: val_label_def sigmoid_0 map_replicate_const)

lemma validation_pass_flat_val:
  assumes "k \<le> n" and "tresh < 1 / 2"
  shows "validation_pass tresh (flat_val k n) = ([1], real k, real k, real n)"
proof -
  have r: "replicate n (1::nat) = replicate k 1 @ replicate (n - k) 1"
    using assms(1) by (simp add: replicate_add [symmetric])
  have "length (filter (\<lambda>(y, l). y + real l = 2)
          (zip (replicate k (1::real) @ replicate (n - k) 0) (replicate n (1::nat)))) = k"
    unfolding r by (simp add: zip_replicate)
  then show ?thesis
    using assms(2)
    by (simp add: validation_pass_def flat_val_def val_batch_step_def val_label_flat Let_def
        sum_list_replicate)
qed

lemma val_f1_no_gain_run: "val_f1 no_gain_run (2 / 5) s = (if s = 1 then 1 else 1 / 2)"
  by (simp add: val_f1_def no_gain_run_def validation_pass_flat_val f1_metric_spec_def)

lemma upt_5: "[0..<5] = [0, 1, 2, 3, 4]"
  by (simp add: upt_rec)

text \<open>
  The step of the loop over the epochs with the two outcomes of the head as an \<open>if\<close>: the
  form in which a concrete run is evaluated one epoch after the other.
\<close>

lemma epoch_loop_Cons_if:
  "epoch_loop c eval_every tresh early_stop warmup_epoch (e # es) st =
     (if fst (early_stopping early_stop warmup_epoch e st)
      then Inr (snd (early_stopping early_stop warmup_epoch e st))
      else (case batch_loop c eval_every tresh e (train_dl c e)
                  (fine_tune warmup_epoch e (snd (early_stopping early_stop warmup_epoch e st))) of
              Inl err \<Rightarrow> Inl err
            | Inr st2 \<Rightarrow> epoch_loop c eval_every tresh early_stop warmup_epoch es st2))"
  by (simp split: prod.splits bool.splits)

lemmas run_simps =
  fit_def fit_loop_def early_stopping_def fine_tune_def train_step_def Let_def evaluate_checkpoint
  checkpoint_def save_def load_def init_state_def no_files_def epoch_loop_Cons_if

lemma no_gain_run_trace:
  "map_sum id trace (fit no_gain_run 5 1 (2 / 5) 1 2 no_files)
     = Inr [Batch 0 1, Save 0 1, Batch 1 2, Batch 2 3]"
  by (simp del: epoch_loop.simps(2)
      add: run_simps upt_5 val_f1_no_gain_run no_gain_run_def [THEN arg_cong, of train_dl])

lemma val_f1_tie_run:
  "val_f1 tie_run (2 / 5) s = (if s \<le> 2 then 1 / 2 else if s = 3 then 3 / 5 else 11 / 20)"
  by (simp add: val_f1_def tie_run_def validation_pass_flat_val f1_metric_spec_def)

lemma four_Suc: "(4::nat) = Suc (Suc (Suc (Suc 0)))"
  by simp

lemma tie_run_saves:
  "map_sum id (\<lambda>st. (map (\<lambda>(s, l, f). f) (val_record st), filter is_save (trace st)))
     (fit tie_run 1 1 (2 / 5) 1 2 no_files)
   = Inr ([1 / 2, 1 / 2, 3 / 5, 11 / 20], [Save 0 1, Save 0 2, Save 0 3])"
  by (simp del: epoch_loop.simps(2)
      add: run_simps val_f1_tie_run tie_run_def [THEN arg_cong, of train_dl] four_Suc)

lemma checkpoint_saves:
  "max_f1 st \<le> f1 \<Longrightarrow>
   checkpoint e info f1 st =
     st\<lparr>best_model_file := Some (step st), best_info_file := Some info, max_f1 := f1,
        no_improve_in_previous_epoch := False, trace := trace st @ [Save e (step st)]\<rparr>"
  by (simp add: checkpoint_def save_def)

lemma checkpoint_skips: "f1 < max_f1 st \<Longrightarrow> checkpoint e info f1 st = st"
  by (simp add: checkpoint_def)

text \<open>
  C2. The checkpointing rule of \<open>fit\<close>: when the F1 of the evaluation is greater than or
  equal to the best F1 of the run so far (a tie included), the model and the info are
  saved, the best F1 becomes this F1 and the no-improvement flag is cleared; when it is
  strictly smaller, nothing is saved and nothing changes. Every evaluation applies this
  rule to the F1 that it has computed. In a run whose four evaluations give the F1 scores
  0.5, 0.5, 0.6 and 0.55, the saves are those of the evaluations 1, 2 and 3.
\<close>

theorem checkpoint_on_tie_or_gain:
  "(max_f1 st \<le> f1 \<longrightarrow>
      checkpoint e info f1 st =
        st\<lparr>best_model_file := Some (step st), best_info_file := Some info, max_f1 := f1,
           no_improve_in_previous_epoch := False, trace := trace st @ [Save e (step st)]\<rparr>)
   \<and> (f1 < max_f1 st \<longrightarrow> checkpoint e info f1 st = st)
   \<and> evaluate c tresh e st =
       checkpoint e (format_info (raw_info c tresh e (step st) (losses st)))
         (val_f1 c tresh (step st))
         (st\<lparr>val_record := val_record st @
            [(step st, mean (fst (validation_pass tresh (val_dl c (step st)))),
              val_f1 c tresh (step st))]\<rparr>)
   \<and> map_sum id (\<lambda>st. (map (\<lambda>(s, l, f). f) (val_record st), filter is_save (trace st)))
         (fit tie_run 1 1 (2 / 5) 1 2 no_files)
       = Inr ([1 / 2, 1 / 2, 3 / 5, 11 / 20], [Save 0 1, Save 0 2, Save 0 3])"
  using checkpoint_saves [of st f1 e info] checkpoint_skips [of f1 st e info]
    evaluate_checkpoint [of c tresh e st] tie_run_saves
  by blast

theorem checkpoint_on_tie_or_gain_witness:
  "max_f1 ((init_state no_files)\<lparr>max_f1 := 1 / 2, step := 2\<rparr>) \<le> 1 / 2
   \<and> trace (checkpoint 0 [] (1 / 2) ((init_state no_files)\<lparr>max_f1 := 1 / 2, step := 2\<rparr>))
       = [Save 0 2]
   \<and> max_f1 (checkpoint 0 [] (1 / 2) ((init_state no_files)\<lparr>max_f1 := 1 / 2, step := 2\<rparr>))
       = 1 / 2
   \<and> 11 / 20 < max_f1 ((init_state no_files)\<lparr>max_f1 := 3 / 5, step := 4\<rparr>)
   \<and> checkpoint 0 [] (11 / 20) ((init_state no_files)\<lparr>max_f1 := 3 / 5, step := 4\<rparr>)
       = (init_state no_files)\<lparr>max_f1 := 3 / 5, step := 4\<rparr>"
proof -
  let ?a = "(init_state no_files)\<lparr>max_f1 := 1 / 2, step := 2\<rparr>"
  let ?b = "(init_state no_files)\<lparr>max_f1 := 3 / 5, step := 4\<rparr>"
  have a: "max_f1 ?a \<le> 1 / 2" by simp
  have b: "11 / 20 < max_f1 ?b" by simp
  from a checkpoint_on_tie_or_gain [of ?a "1 / 2" 0 "[]"]
  have "checkpoint 0 [] (1 / 2) ?a =
      ?a\<lparr>best_model_file := Some (step ?a), best_info_file := Some [], max_f1 := 1 / 2,
         no_improve_in_previous_epoch := False, trace := trace ?a @ [Save 0 (step ?a)]\<rparr>"
    by blast
  then have "trace (checkpoint 0 [] (1 / 2) ?a) = [Save 0 2]"
    and "max_f1 (checkpoint 0 [] (1 / 2) ?a) = 1 / 2"
    by (simp_all add: init_state_def)
  moreover from b checkpoint_on_tie_or_gain [of ?b "11 / 20" 0 "[]"]
  have "checkpoint 0 [] (11 / 20) ?b = ?b" by blast
  ultimately show ?thesis using a b by blast
qed

lemma no_saves_between:
  assumes "\<forall>i<k. saves_of (a + i) evs = []"
  shows "\<forall>x\<in>set evs. is_save x \<longrightarrow> epoch_of x < a \<or> a + k \<le> epoch_of x"
proof (intro ballI impI)
  fix x assume x: "x \<in> set evs" "is_save x"
  show "epoch_of x < a \<or> a + k \<le> epoch_of x"
  proof (rule ccontr)
    assume "\<not> (epoch_of x < a \<or> a + k \<le> epoch_of x)"
    then have i: "epoch_of x - a < k" "a + (epoch_of x - a) = epoch_of x" by auto
    from x i(2) have "x \<in> set (saves_of (a + (epoch_of x - a)) evs)"
      by (simp add: saves_of_def)
    with assms i(1) show False by fastforce
  qed
qed

lemma batches_from_Nil: "\<forall>x\<in>set evs. epoch_of x < n \<Longrightarrow> batches_from n evs = []"
  by (auto simp: batches_from_def filter_empty_conv)

lemma batches_of_not_Nil:
  "\<exists>x\<in>set evs. \<not> is_save x \<and> epoch_of x = e \<Longrightarrow> batches_of e evs \<noteq> []"
  by (auto simp: batches_of_def filter_empty_conv)

lemma early_stopping_head:
  "warmup_epoch \<le> int e \<Longrightarrow>
   early_stopping early_stop warmup_epoch e st =
     (if no_improve_in_previous_epoch st
      then (early_stop \<le> no_improve_epoch st + 1,
            st\<lparr>no_improve_epoch := no_improve_epoch st + 1\<rparr>)
      else (False, st\<lparr>no_improve_epoch := 0, no_improve_in_previous_epoch := True\<rparr>))"
  by (simp add: early_stopping_flag_set early_stopping_flag_clear)

lemma early_stopping_halts:
  assumes "fst (early_stopping early_stop warmup_epoch e st)"
  shows "epoch_loop c eval_every tresh early_stop warmup_epoch (e # es) st
           = Inr (snd (early_stopping early_stop warmup_epoch e st))
         \<and> trace (snd (early_stopping early_stop warmup_epoch e st)) = trace st"
proof -
  obtain b st1 where h: "early_stopping early_stop warmup_epoch e st = (b, st1)"
    by (cases "early_stopping early_stop warmup_epoch e st")
  with assms early_stopping_fields(1) [OF h] show ?thesis
    by (simp add: epoch_loop_Cons_if del: epoch_loop.simps(2))
qed

lemma no_save_window_iff:
  "no_save_window warmup_epoch k e evs
     = (\<exists>a. warmup_epoch \<le> int a \<and> a + k \<le> e \<and> (\<forall>i<k. saves_of (a + i) evs = []))"
  unfolding no_save_window_def list_ex_iff list_all_iff
  by (auto simp: less_Suc_eq_le)

lemma saves_of_append: "saves_of m (xs @ ys) = saves_of m xs @ saves_of m ys"
  by (simp add: saves_of_def)

lemma saves_of_other: "\<forall>x\<in>set ys. epoch_of x \<noteq> m \<Longrightarrow> saves_of m ys = []"
  by (auto simp: saves_of_def filter_empty_conv)

lemma saves_of_no_save: "\<not> (\<exists>x\<in>set ys. is_save x) \<Longrightarrow> saves_of m ys = []"
  by (auto simp: saves_of_def filter_empty_conv)

lemma train_step_Inr:
  "eval_every \<noteq> 0 \<Longrightarrow> \<exists>st'. train_step c eval_every tresh e st = Inr st'"
  by (simp add: train_step_def Let_def)

lemma batch_loop_Inr:
  "eval_every \<noteq> 0 \<Longrightarrow> \<exists>st'. batch_loop c eval_every tresh e n st = Inr st'"
proof (induction n arbitrary: st)
  case 0
  then show ?case by simp
next
  case (Suc n)
  from train_step_Inr [OF Suc.prems] obtain st1 where
    "train_step c eval_every tresh e st = Inr st1" by blast
  with Suc.IH [OF Suc.prems, of st1] show ?case by simp
qed

lemma epoch_loop_Inr:
  "eval_every \<noteq> 0 \<Longrightarrow> \<exists>st'. epoch_loop c eval_every tresh early_stop warmup_epoch es st = Inr st'"
proof (induction es arbitrary: st)
  case Nil
  then show ?case by simp
next
  case (Cons e es)
  obtain b st1 where h: "early_stopping early_stop warmup_epoch e st = (b, st1)"
    by (cases "early_stopping early_stop warmup_epoch e st")
  from batch_loop_Inr [OF Cons.prems] obtain st2 where
    b: "batch_loop c eval_every tresh e (train_dl c e) (fine_tune warmup_epoch e st1) = Inr st2"
    by blast
  from Cons.IH [OF Cons.prems, of st2] h b show ?case
    by (cases b) simp_all
qed

lemma fit_loop_Inr:
  "eval_every \<noteq> 0 \<Longrightarrow> \<exists>fin. fit_loop c epoch eval_every tresh early_stop warmup_epoch fs = Inr fin"
  unfolding fit_loop_def by (rule epoch_loop_Inr)

text \<open>
  One epoch that starts in a state in which the counter counts the epochs without a save
  that precede it: the head of the loop does not break as long as fewer than \<open>k\<close> such
  epochs precede, and the body of the epoch keeps the reading of the counter and of the
  flag.
\<close>

lemma epoch_no_halt_step:
  assumes run: "epoch_loop c eval_every tresh early_stop warmup_epoch (a # es) st = Inr fin"
    and old: "\<forall>x\<in>set (trace st). epoch_of x < a"
    and k: "0 < k" "int k \<le> max 1 early_stop"
    and nw: "\<forall>b. warmup_epoch \<le> int b \<and> b + k \<le> a \<longrightarrow> (\<exists>i<k. saves_of (b + i) (trace st) \<noteq> [])"
    and inv1: "int a \<le> warmup_epoch \<or> a = 0 \<longrightarrow> \<not> no_improve_in_previous_epoch st"
    and inv2: "warmup_epoch < int a \<and> 0 < a \<longrightarrow>
        (\<exists>b j. b + j + 1 = a \<and> warmup_epoch \<le> int b \<and> no_improve_epoch st = int j
           \<and> (\<forall>i<j. saves_of (b + i) (trace st) = [])
           \<and> (no_improve_in_previous_epoch st \<longrightarrow> saves_of (b + j) (trace st) = []))"
  shows "\<exists>st2 evs1. epoch_loop c eval_every tresh early_stop warmup_epoch es st2 = Inr fin
        \<and> trace st2 = trace st @ evs1 \<and> (\<forall>x\<in>set evs1. epoch_of x = a)
        \<and> (0 < train_dl c a \<longrightarrow> (\<exists>x\<in>set evs1. \<not> is_save x))
        \<and> (int (Suc a) \<le> warmup_epoch \<or> Suc a = 0 \<longrightarrow> \<not> no_improve_in_previous_epoch st2)
        \<and> (warmup_epoch < int (Suc a) \<and> 0 < Suc a \<longrightarrow>
            (\<exists>b j. b + j + 1 = Suc a \<and> warmup_epoch \<le> int b \<and> no_improve_epoch st2 = int j
               \<and> (\<forall>i<j. saves_of (b + i) (trace st2) = [])
               \<and> (no_improve_in_previous_epoch st2 \<longrightarrow> saves_of (b + j) (trace st2) = [])))"
proof -
  have olda: "\<And>m. m \<ge> a \<Longrightarrow> saves_of m (trace st) = []"
    using old by (intro saves_of_other) auto
  \<comment> \<open>the head of the loop does not break\<close>
  have nobreak: "\<not> fst (early_stopping early_stop warmup_epoch a st)"
  proof
    assume brk: "fst (early_stopping early_stop warmup_epoch a st)"
    then have w: "warmup_epoch \<le> int a" and f: "no_improve_in_previous_epoch st"
      and c: "early_stop \<le> no_improve_epoch st + 1"
      by (auto simp: early_stopping_def Let_def split: if_splits)
    from inv1 f have "warmup_epoch < int a \<and> 0 < a" by auto
    with inv2 f obtain b j where bj: "b + j + 1 = a" "warmup_epoch \<le> int b"
      "no_improve_epoch st = int j" "\<forall>i<j. saves_of (b + i) (trace st) = []"
      "saves_of (b + j) (trace st) = []" by blast
    from c bj(3) k have kj: "k \<le> j + 1" by auto
    let ?b = "b + (j + 1 - k)"
    have "warmup_epoch \<le> int ?b" using bj(2) by simp
    moreover have "?b + k \<le> a" using kj bj(1) by simp
    ultimately obtain i where i: "i < k" "saves_of (?b + i) (trace st) \<noteq> []"
      using nw by blast
    have "j + 1 - k + i \<le> j" using i(1) kj by simp
    then have "saves_of (b + (j + 1 - k + i)) (trace st) = []"
      using bj(4,5) by (cases "j + 1 - k + i = j") auto
    with i(2) show False by (simp add: add.assoc)
  qed
  obtain st1 where h: "early_stopping early_stop warmup_epoch a st = (False, st1)"
    using nobreak by (cases "early_stopping early_stop warmup_epoch a st") auto
  from run h obtain st2 where
    bl: "batch_loop c eval_every tresh a (train_dl c a) (fine_tune warmup_epoch a st1) = Inr st2"
    and rest: "epoch_loop c eval_every tresh early_stop warmup_epoch es st2 = Inr fin"
    by (auto split: sum.splits)
  from batch_loop_events [OF bl] obtain evs1 where e0:
    "trace st2 = trace (fine_tune warmup_epoch a st1) @ evs1 \<and> (\<forall>x\<in>set evs1. epoch_of x = a)
     \<and> no_improve_in_previous_epoch st2
         = (no_improve_in_previous_epoch (fine_tune warmup_epoch a st1)
            \<and> \<not> (\<exists>x\<in>set evs1. is_save x))
     \<and> no_improve_epoch st2 = no_improve_epoch (fine_tune warmup_epoch a st1)
     \<and> fine_tuning st2 = fine_tuning (fine_tune warmup_epoch a st1)
     \<and> (0 < train_dl c a \<longrightarrow> (\<exists>x\<in>set evs1. \<not> is_save x))"
    by (elim exE) (rule that)
  then have e1:
    "trace st2 = trace st @ evs1" "\<forall>x\<in>set evs1. epoch_of x = a"
    "no_improve_in_previous_epoch st2
       = (no_improve_in_previous_epoch st1 \<and> \<not> (\<exists>x\<in>set evs1. is_save x))"
    "no_improve_epoch st2 = no_improve_epoch st1"
    "0 < train_dl c a \<longrightarrow> (\<exists>x\<in>set evs1. \<not> is_save x)"
    using early_stopping_fields(1) [OF h] by (simp_all add: fine_tune_fields)
  have sv_old: "\<And>m. m < a \<Longrightarrow> saves_of m (trace st2) = saves_of m (trace st)"
    using e1(1,2) by (simp add: saves_of_append saves_of_other)
  have sv_a: "no_improve_in_previous_epoch st2 \<longrightarrow> saves_of a (trace st2) = []"
    using e1(1,3) olda [of a] by (simp add: saves_of_append saves_of_no_save)
  have i1: "int (Suc a) \<le> warmup_epoch \<or> Suc a = 0 \<longrightarrow> \<not> no_improve_in_previous_epoch st2"
  proof
    assume "int (Suc a) \<le> warmup_epoch \<or> Suc a = 0"
    then have lt: "int a < warmup_epoch" by simp
    with h have "st1 = st" by (simp add: early_stopping_def)
    with inv1 lt e1(3) show "\<not> no_improve_in_previous_epoch st2" by simp
  qed
  have i2: "warmup_epoch < int (Suc a) \<and> 0 < Suc a \<longrightarrow>
      (\<exists>b j. b + j + 1 = Suc a \<and> warmup_epoch \<le> int b \<and> no_improve_epoch st2 = int j
         \<and> (\<forall>i<j. saves_of (b + i) (trace st2) = [])
         \<and> (no_improve_in_previous_epoch st2 \<longrightarrow> saves_of (b + j) (trace st2) = []))"
  proof
    assume "warmup_epoch < int (Suc a) \<and> 0 < Suc a"
    then have w: "warmup_epoch \<le> int a" by simp
    show "\<exists>b j. b + j + 1 = Suc a \<and> warmup_epoch \<le> int b \<and> no_improve_epoch st2 = int j
         \<and> (\<forall>i<j. saves_of (b + i) (trace st2) = [])
         \<and> (no_improve_in_previous_epoch st2 \<longrightarrow> saves_of (b + j) (trace st2) = [])"
    proof (cases "no_improve_in_previous_epoch st")
      case False
      with w h have "no_improve_epoch st1 = 0"
        by (auto simp: early_stopping_def)
      with e1(4) sv_a w show ?thesis
        by (intro exI [of _ a] exI [of _ 0]) simp
    next
      case True
      with inv1 have "warmup_epoch < int a \<and> 0 < a" by auto
      with inv2 True obtain b j where bj: "b + j + 1 = a" "warmup_epoch \<le> int b"
        "no_improve_epoch st = int j" "\<forall>i<j. saves_of (b + i) (trace st) = []"
        "saves_of (b + j) (trace st) = []" by blast
      from True w h have "no_improve_epoch st1 = no_improve_epoch st + 1"
        by (auto simp: early_stopping_def Let_def split: if_splits)
      with e1(4) bj(3) have c: "no_improve_epoch st2 = int (Suc j)" by simp
      have "\<forall>i<Suc j. saves_of (b + i) (trace st2) = []"
      proof (intro allI impI)
        fix i assume "i < Suc j"
        then have "b + i < a" "i < j \<or> i = j" using bj(1) by auto
        with sv_old [of "b + i"] bj(4,5) show "saves_of (b + i) (trace st2) = []" by auto
      qed
      moreover have "b + Suc j = a" using bj(1) by simp
      ultimately show ?thesis
        using bj(1,2) c sv_a by (intro exI [of _ b] exI [of _ "Suc j"]) simp
    qed
  qed
  show ?thesis
    by (intro exI [of _ st2] exI [of _ evs1] conjI) (rule rest e1(1) e1(2) e1(5) i1 i2)+
qed

lemma epoch_loop_no_halt:
  assumes "epoch_loop c eval_every tresh early_stop warmup_epoch [a..<N] st = Inr fin"
    and "e - a = d" and "a \<le> e" and "e < N" and "0 < train_dl c e"
    and "\<forall>x\<in>set (trace st). epoch_of x < a"
    and "0 < k" and "int k \<le> max 1 early_stop"
    and "\<forall>b. warmup_epoch \<le> int b \<and> b + k \<le> e \<longrightarrow> (\<exists>i<k. saves_of (b + i) (trace fin) \<noteq> [])"
    and "int a \<le> warmup_epoch \<or> a = 0 \<longrightarrow> \<not> no_improve_in_previous_epoch st"
    and "warmup_epoch < int a \<and> 0 < a \<longrightarrow>
        (\<exists>b j. b + j + 1 = a \<and> warmup_epoch \<le> int b \<and> no_improve_epoch st = int j
           \<and> (\<forall>i<j. saves_of (b + i) (trace st) = [])
           \<and> (no_improve_in_previous_epoch st \<longrightarrow> saves_of (b + j) (trace st) = []))"
  shows "\<exists>x\<in>set (trace fin). \<not> is_save x \<and> epoch_of x = e"
  using assms
proof (induction d arbitrary: a st)
  case 0
  then have ae: "a = e" by simp
  with "0.prems"(4) have l: "[a..<N] = a # [Suc a..<N]" by (simp add: upt_conv_Cons)
  from epoch_loop_events [OF "0.prems"(1)] obtain evs where
    evs: "trace fin = trace st @ evs" "\<forall>x\<in>set evs. epoch_of x \<in> set [a..<N]" by blast
  have nw: "\<forall>b. warmup_epoch \<le> int b \<and> b + k \<le> a \<longrightarrow> (\<exists>i<k. saves_of (b + i) (trace st) \<noteq> [])"
  proof (intro allI impI)
    fix b assume b: "warmup_epoch \<le> int b \<and> b + k \<le> a"
    with "0.prems"(9) ae obtain i where i: "i < k" "saves_of (b + i) (trace fin) \<noteq> []" by blast
    with b have "b + i < a" by simp
    then have "saves_of (b + i) evs = []" using evs(2) by (intro saves_of_other) auto
    with i evs(1) show "\<exists>i<k. saves_of (b + i) (trace st) \<noteq> []"
      by (auto simp: saves_of_append)
  qed
  from epoch_no_halt_step [OF "0.prems"(1) [unfolded l] "0.prems"(6,7,8) nw "0.prems"(10,11)]
  obtain st2 evs1 where s:
    "epoch_loop c eval_every tresh early_stop warmup_epoch [Suc a..<N] st2 = Inr fin"
    "trace st2 = trace st @ evs1" "\<forall>x\<in>set evs1. epoch_of x = a"
    "0 < train_dl c a \<longrightarrow> (\<exists>x\<in>set evs1. \<not> is_save x)"
    by (elim exE conjE) (rule that)
  from epoch_loop_events [OF s(1)] obtain evs2 where "trace fin = trace st2 @ evs2" by blast
  with s(2,3,4) "0.prems"(5) ae show ?case by auto
next
  case (Suc d)
  then have ae: "a < e" by simp
  with Suc.prems(4) have l: "[a..<N] = a # [Suc a..<N]" by (simp add: upt_conv_Cons)
  from epoch_loop_events [OF Suc.prems(1)] obtain evs where
    evs: "trace fin = trace st @ evs" "\<forall>x\<in>set evs. epoch_of x \<in> set [a..<N]" by blast
  have nw: "\<forall>b. warmup_epoch \<le> int b \<and> b + k \<le> a \<longrightarrow> (\<exists>i<k. saves_of (b + i) (trace st) \<noteq> [])"
  proof (intro allI impI)
    fix b assume b: "warmup_epoch \<le> int b \<and> b + k \<le> a"
    with Suc.prems(9) ae obtain i where i: "i < k" "saves_of (b + i) (trace fin) \<noteq> []"
      by (metis le_trans less_imp_le_nat)
    with b have "b + i < a" by simp
    then have "saves_of (b + i) evs = []" using evs(2) by (intro saves_of_other) auto
    with i evs(1) show "\<exists>i<k. saves_of (b + i) (trace st) \<noteq> []"
      by (auto simp: saves_of_append)
  qed
  from epoch_no_halt_step [OF Suc.prems(1) [unfolded l] Suc.prems(6,7,8) nw Suc.prems(10,11)]
  obtain st2 evs1 where s:
    "epoch_loop c eval_every tresh early_stop warmup_epoch [Suc a..<N] st2 = Inr fin"
    "trace st2 = trace st @ evs1" "\<forall>x\<in>set evs1. epoch_of x = a"
    "int (Suc a) \<le> warmup_epoch \<or> Suc a = 0 \<longrightarrow> \<not> no_improve_in_previous_epoch st2"
    "warmup_epoch < int (Suc a) \<and> 0 < Suc a \<longrightarrow>
        (\<exists>b j. b + j + 1 = Suc a \<and> warmup_epoch \<le> int b \<and> no_improve_epoch st2 = int j
           \<and> (\<forall>i<j. saves_of (b + i) (trace st2) = [])
           \<and> (no_improve_in_previous_epoch st2 \<longrightarrow> saves_of (b + j) (trace st2) = []))"
    by (elim exE conjE) (rule that)
  show ?case
  proof (rule Suc.IH [OF s(1) _ _ Suc.prems(4,5) _ Suc.prems(7,8,9) s(4,5)])
    show "e - Suc a = d" using Suc.prems(2) by simp
    show "Suc a \<le> e" using ae by simp
    show "\<forall>x\<in>set (trace st2). epoch_of x < Suc a"
      using s(2,3) Suc.prems(6) by auto
  qed
qed

lemma fit_loop_no_halt:
  assumes "fit_loop c epoch eval_every tresh early_stop warmup_epoch fs = Inr fin"
    and "int e < epoch" and "0 < train_dl c e"
    and "\<not> no_save_window warmup_epoch (patience early_stop) e (trace fin)"
  shows "batches_of e (trace fin) \<noteq> []"
proof (rule batches_of_not_Nil,
    rule epoch_loop_no_halt [OF assms(1) [unfolded fit_loop_def], where e = e and k = "patience early_stop"])
  show "\<forall>b. warmup_epoch \<le> int b \<and> b + patience early_stop \<le> e \<longrightarrow>
      (\<exists>i<patience early_stop. saves_of (b + i) (trace fin) \<noteq> [])"
    using assms(4) by (auto simp: no_save_window_iff)
qed (use assms(2,3) in \<open>simp_all add: init_state_fields patience_def\<close>)

lemma fit_fit_loop:
  "fit c epoch eval_every tresh early_stop warmup_epoch fs = Inr fin \<Longrightarrow>
   fit_loop c epoch eval_every tresh early_stop warmup_epoch fs = Inr fin"
  by (auto simp: fit_def split: sum.splits)

lemma fit_loop_early_stop:
  assumes "fit_loop c epoch eval_every tresh early_stop warmup_epoch fs = Inr st"
    and "warmup_epoch \<le> int e" and "early_stop \<le> int k" and "0 < k"
    and "\<forall>x\<in>set (trace st). is_save x \<longrightarrow> epoch_of x < e \<or> e + k \<le> epoch_of x"
  shows "\<forall>x\<in>set (trace st). epoch_of x < e + k"
  by (rule epoch_loop_early_stop [OF assms(1) [unfolded fit_loop_def], where e = e and k = k])
    (use assms in \<open>simp_all add: init_state_fields\<close>)

lemma fit_loop_reaches_warmup:
  assumes "fit_loop c epoch eval_every tresh early_stop warmup_epoch fs = Inr st"
    and "int e \<le> warmup_epoch" and "int e < epoch" and "0 < train_dl c e"
  shows "\<exists>x\<in>set (trace st). \<not> is_save x \<and> epoch_of x = e"
  by (rule epoch_loop_reaches_warmup [OF assms(1) [unfolded fit_loop_def], where e = e])
    (use assms in \<open>simp_all add: init_state_fields\<close>)

lemma fit_loop_patience:
  assumes "fit_loop c epoch eval_every tresh early_stop warmup_epoch fs = Inr fin"
    and "warmup_epoch \<le> int a" and "early_stop \<le> int k" and "0 < k"
    and "\<forall>i<k. saves_of (a + i) (trace fin) = []"
  shows "batches_from (a + k) (trace fin) = []"
  by (rule batches_from_Nil, rule fit_loop_early_stop [OF assms(1-4)],
      rule no_saves_between [OF assms(5)])

lemma fit_loop_no_halt_before_warmup:
  assumes "fit_loop c epoch eval_every tresh early_stop warmup_epoch fs = Inr fin"
    and "int b \<le> warmup_epoch" and "int b < epoch" and "0 < train_dl c b"
  shows "batches_of b (trace fin) \<noteq> []"
  by (rule batches_of_not_Nil, rule fit_loop_reaches_warmup [OF assms])

lemma batches_of_Nil: "a \<le> e \<Longrightarrow> batches_from a evs = [] \<Longrightarrow> batches_of e evs = []"
  by (auto simp: batches_of_def batches_from_def filter_empty_conv)

lemma fit_loop_processed_iff:
  assumes "fit_loop c epoch eval_every tresh early_stop warmup_epoch fs = Inr fin"
    and "int e < epoch" and "0 < train_dl c e"
  shows "(batches_of e (trace fin) \<noteq> [])
       = (\<not> no_save_window warmup_epoch (patience early_stop) e (trace fin))"
proof
  assume ne: "batches_of e (trace fin) \<noteq> []"
  show "\<not> no_save_window warmup_epoch (patience early_stop) e (trace fin)"
  proof
    assume "no_save_window warmup_epoch (patience early_stop) e (trace fin)"
    then obtain a where a: "warmup_epoch \<le> int a" "a + patience early_stop \<le> e"
      "\<forall>i<patience early_stop. saves_of (a + i) (trace fin) = []"
      by (auto simp: no_save_window_iff)
    have "batches_from (a + patience early_stop) (trace fin) = []"
      by (rule fit_loop_patience [OF assms(1) a(1) _ _ a(3)]) (auto simp: patience_def max_def)
    with a(2) ne show False by (simp add: batches_of_Nil)
  qed
next
  assume "\<not> no_save_window warmup_epoch (patience early_stop) e (trace fin)"
  then show "batches_of e (trace fin) \<noteq> []"
    by (rule fit_loop_no_halt [OF assms])
qed

lemma batch_loop_flag:
  assumes "batch_loop c eval_every tresh e n st = Inr st'"
  shows "\<exists>evs. trace st' = trace st @ evs \<and> (\<forall>x\<in>set evs. epoch_of x = e)
     \<and> no_improve_in_previous_epoch st' = (no_improve_in_previous_epoch st \<and> saves_of e evs = [])
     \<and> no_improve_epoch st' = no_improve_epoch st"
proof -
  from batch_loop_events [OF assms] obtain evs where e:
    "trace st' = trace st @ evs" "\<forall>x\<in>set evs. epoch_of x = e"
    "no_improve_in_previous_epoch st'
       = (no_improve_in_previous_epoch st \<and> \<not> (\<exists>x\<in>set evs. is_save x))"
    "no_improve_epoch st' = no_improve_epoch st"
    by (elim exE conjE) (rule that)
  from e(2) have "(saves_of e evs = []) = (\<not> (\<exists>x\<in>set evs. is_save x))"
    by (auto simp: saves_of_def filter_empty_conv)
  with e show ?thesis by auto
qed

lemma val_f1_steady_run: "val_f1 steady_run (2 / 5) s = 1 / 2"
  by (simp add: val_f1_def steady_run_def validation_pass_flat_val f1_metric_spec_def)

lemma val_f1_reset_run:
  "val_f1 reset_run (2 / 5) s = (if s = 1 \<or> s = 2 \<or> s = 4 then 1 else 1 / 2)"
  by (simp add: val_f1_def reset_run_def validation_pass_flat_val f1_metric_spec_def)

lemma upt_8: "[0..<8] = [0, 1, 2, 3, 4, 5, 6, 7]"
  by (simp add: upt_rec)

lemma no_gain_run_loop_trace:
  "map_sum id trace (fit_loop no_gain_run 5 1 (2 / 5) 1 2 no_files)
     = Inr [Batch 0 1, Save 0 1, Batch 1 2, Batch 2 3]"
  by (simp del: epoch_loop.simps(2)
      add: run_simps upt_5 val_f1_no_gain_run no_gain_run_def [THEN arg_cong, of train_dl])

lemma steady_run_trace:
  "map_sum id trace (fit_loop steady_run 5 1 (2 / 5) 1 2 no_files)
     = Inr [Batch 0 1, Save 0 1, Batch 1 2, Save 1 2, Batch 2 3, Save 2 3, Batch 3 4, Save 3 4,
            Batch 4 5, Save 4 5]"
  by (simp del: epoch_loop.simps(2)
      add: run_simps upt_5 val_f1_steady_run steady_run_def [THEN arg_cong, of train_dl])

lemma reset_run_trace:
  "map_sum id trace (fit_loop reset_run 8 1 (2 / 5) 2 2 no_files)
     = Inr [Batch 0 1, Save 0 1, Batch 1 2, Save 1 2, Batch 2 3, Batch 3 4, Save 3 4,
            Batch 4 5, Batch 5 6]"
  by (simp del: epoch_loop.simps(2)
      add: run_simps upt_8 val_f1_reset_run reset_run_def [THEN arg_cong, of train_dl])

text \<open>
  The early stopping of \<open>fit\<close> as the claim C1 states it would, with \<open>warmup_epoch = 2\<close>
  and \<open>early_stop = 1\<close>, count the epoch before epoch 2: in the run below no evaluation
  of epoch 1 reaches the best F1, so at the top of epoch 2 the counter would reach
  \<open>early_stop\<close> and no batch of epoch 2 would be processed. The code processes the batch of
  epoch 2 (step 3): the flag is still clear at the top of epoch \<open>warmup_epoch\<close>.
\<close>

theorem early_stopping_claimed_at_warmup_epoch_counterexample:
  "map_sum id (\<lambda>st. (saves_of 1 (trace st), batches_of 2 (trace st)))
     (fit no_gain_run 5 1 (2 / 5) 1 2 no_files) = Inr ([], [Batch 2 3])"
proof -
  obtain r where r: "fit no_gain_run 5 1 (2 / 5) 1 2 no_files = r" by simp
  with no_gain_run_trace show ?thesis
    by (cases r) (simp_all add: saves_of_def batches_of_def)
qed

text \<open>
  C1, as amended. Early stopping has epoch granularity. The head of the loop does nothing
  before epoch \<open>warmup_epoch\<close>. At the top of every epoch \<open>e\<close> with \<open>warmup_epoch \<le> e\<close> it
  checks the no-improvement flag: when the flag is set the counter is incremented, and when
  the counter is then at least \<open>early_stop\<close> the loop over the epochs ends at once, no batch
  of the new epoch is processed; when the flag is clear the counter is reset to 0; in both
  cases an epoch that is processed starts with the flag set. The batches of an epoch leave
  the counter as it is and leave the flag set exactly when it was set and no evaluation of
  the epoch saved (reached the best F1). So the flag is first set at the top of epoch
  \<open>warmup_epoch\<close>, where it is found clear whatever the epochs before did, and at the top
  of a later epoch it is found set exactly when the previous epoch had no save.

  The loop returns for every non-zero \<open>eval_every\<close>, and when \<open>fit\<close> returns its loop has
  returned the same state. For a run of the loop: when \<open>k \<ge> 1\<close> epochs in a row from an
  epoch \<open>a \<ge> warmup_epoch\<close> on have no save and \<open>early_stop \<le> k\<close>, no batch of epoch \<open>a + k\<close>
  or of a later epoch is processed; every epoch up to and including \<open>warmup_epoch\<close> that the
  run has batches for is processed; and in general an epoch \<open>m\<close> that the run has batches
  for is processed exactly when it is not preceded by \<open>max 1 early_stop\<close> epochs in a row
  without a save of which the first is \<open>warmup_epoch\<close> or later. In particular, with
  \<open>warmup_epoch = 2\<close> and \<open>early_stop = 1\<close>, when epoch 2 has no save, no batch of epoch 3 is
  processed. A run of five epochs in which every epoch saves processes all five epochs;
  a run with \<open>early_stop = 2\<close> in which the epochs 2, 4 and 5 have no save and epoch 3 has
  one goes on after epoch 2 and after epoch 4 and ends before epoch 6.
\<close>

theorem early_stopping_epoch_granularity:
  "(warmup_epoch \<le> int e \<longrightarrow>
      early_stopping early_stop warmup_epoch e st =
        (if no_improve_in_previous_epoch st
         then (early_stop \<le> no_improve_epoch st + 1,
               st\<lparr>no_improve_epoch := no_improve_epoch st + 1\<rparr>)
         else (False, st\<lparr>no_improve_epoch := 0, no_improve_in_previous_epoch := True\<rparr>)))
   \<and> (int e < warmup_epoch \<longrightarrow> early_stopping early_stop warmup_epoch e st = (False, st))
   \<and> (fst (early_stopping early_stop warmup_epoch e st) \<longrightarrow>
        epoch_loop c eval_every tresh early_stop warmup_epoch (e # es) st
          = Inr (snd (early_stopping early_stop warmup_epoch e st))
        \<and> trace (snd (early_stopping early_stop warmup_epoch e st)) = trace st)
   \<and> (batch_loop c eval_every tresh e n st = Inr st' \<longrightarrow>
        (\<exists>evs. trace st' = trace st @ evs \<and> (\<forall>x\<in>set evs. epoch_of x = e)
           \<and> no_improve_in_previous_epoch st'
               = (no_improve_in_previous_epoch st \<and> saves_of e evs = [])
           \<and> no_improve_epoch st' = no_improve_epoch st))
   \<and> (eval_every \<noteq> 0 \<longrightarrow>
        (\<exists>r. fit_loop c epoch eval_every tresh early_stop warmup_epoch fs = Inr r))
   \<and> (fit c epoch eval_every tresh early_stop warmup_epoch fs = Inr fin \<longrightarrow>
        fit_loop c epoch eval_every tresh early_stop warmup_epoch fs = Inr fin)
   \<and> (fit_loop c epoch eval_every tresh early_stop warmup_epoch fs = Inr fin \<longrightarrow>
        (warmup_epoch \<le> int a \<and> early_stop \<le> int k \<and> 0 < k
           \<and> (\<forall>i<k. saves_of (a + i) (trace fin) = [])
           \<longrightarrow> batches_from (a + k) (trace fin) = [])
        \<and> (int b \<le> warmup_epoch \<and> int b < epoch \<and> 0 < train_dl c b
           \<longrightarrow> batches_of b (trace fin) \<noteq> [])
        \<and> (int m < epoch \<and> 0 < train_dl c m
           \<longrightarrow> (batches_of m (trace fin) \<noteq> [])
                 = (\<not> no_save_window warmup_epoch (patience early_stop) m (trace fin))))
   \<and> (fit_loop c epoch eval_every tresh 1 2 fs = Inr fin' \<and> saves_of 2 (trace fin') = []
        \<longrightarrow> batches_from 3 (trace fin') = [])
   \<and> map_sum id trace (fit_loop steady_run 5 1 (2 / 5) 1 2 no_files)
       = Inr [Batch 0 1, Save 0 1, Batch 1 2, Save 1 2, Batch 2 3, Save 2 3, Batch 3 4,
              Save 3 4, Batch 4 5, Save 4 5]
   \<and> map_sum id trace (fit_loop reset_run 8 1 (2 / 5) 2 2 no_files)
       = Inr [Batch 0 1, Save 0 1, Batch 1 2, Save 1 2, Batch 2 3, Batch 3 4, Save 3 4,
              Batch 4 5, Batch 5 6]"
proof -
  have 1: "fit_loop c epoch eval_every tresh 1 2 fs = Inr fin' \<and> saves_of 2 (trace fin') = []
        \<longrightarrow> batches_from 3 (trace fin') = []"
    using fit_loop_patience [of c epoch eval_every tresh 1 2 fs fin' 2 1] by simp
  have 2: "batch_loop c eval_every tresh e n st = Inr st' \<longrightarrow>
        (\<exists>evs. trace st' = trace st @ evs \<and> (\<forall>x\<in>set evs. epoch_of x = e)
           \<and> no_improve_in_previous_epoch st'
               = (no_improve_in_previous_epoch st \<and> saves_of e evs = [])
           \<and> no_improve_epoch st' = no_improve_epoch st)"
    using batch_loop_flag [of c eval_every tresh e n st st'] by blast
  have 3: "eval_every \<noteq> 0 \<longrightarrow>
        (\<exists>r. fit_loop c epoch eval_every tresh early_stop warmup_epoch fs = Inr r)"
    using fit_loop_Inr [of eval_every c epoch tresh early_stop warmup_epoch fs] by blast
  have 4: "fit_loop c epoch eval_every tresh early_stop warmup_epoch fs = Inr fin \<longrightarrow>
        (warmup_epoch \<le> int a \<and> early_stop \<le> int k \<and> 0 < k
           \<and> (\<forall>i<k. saves_of (a + i) (trace fin) = [])
           \<longrightarrow> batches_from (a + k) (trace fin) = [])
        \<and> (int b \<le> warmup_epoch \<and> int b < epoch \<and> 0 < train_dl c b
           \<longrightarrow> batches_of b (trace fin) \<noteq> [])
        \<and> (int m < epoch \<and> 0 < train_dl c m
           \<longrightarrow> (batches_of m (trace fin) \<noteq> [])
                 = (\<not> no_save_window warmup_epoch (patience early_stop) m (trace fin)))"
    using fit_loop_patience [of c epoch eval_every tresh early_stop warmup_epoch fs fin a k]
      fit_loop_no_halt_before_warmup [of c epoch eval_every tresh early_stop warmup_epoch fs fin b]
      fit_loop_processed_iff [of c epoch eval_every tresh early_stop warmup_epoch fs fin m]
    by blast
  from 1 2 3 4 show ?thesis
    using early_stopping_head [of warmup_epoch e early_stop st]
      early_stopping_before_warmup [of e warmup_epoch early_stop st]
      early_stopping_halts [of early_stop warmup_epoch e st c eval_every tresh es]
      fit_fit_loop [of c epoch eval_every tresh early_stop warmup_epoch fs fin]
      steady_run_trace reset_run_trace
    by blast
qed

theorem early_stopping_epoch_granularity_witness:
  "(2::int) \<le> int 3
   \<and> early_stopping 1 2 3 ((init_state no_files)\<lparr>no_improve_in_previous_epoch := True\<rparr>)
       = (True, (init_state no_files)\<lparr>no_improve_in_previous_epoch := True, no_improve_epoch := 1\<rparr>)
   \<and> epoch_loop no_gain_run 1 (2 / 5) 1 2 [3, 4]
         ((init_state no_files)\<lparr>no_improve_in_previous_epoch := True\<rparr>)
       = Inr ((init_state no_files)\<lparr>no_improve_in_previous_epoch := True, no_improve_epoch := 1\<rparr>)
   \<and> (\<exists>fin. fit no_gain_run 5 1 (2 / 5) 1 2 no_files = Inr fin
          \<and> fit_loop no_gain_run 5 1 (2 / 5) 1 2 no_files = Inr fin
          \<and> trace fin = [Batch 0 1, Save 0 1, Batch 1 2, Batch 2 3]
          \<and> saves_of 2 (trace fin) = [] \<and> batches_of 2 (trace fin) \<noteq> []
          \<and> batches_from 3 (trace fin) = []
          \<and> \<not> no_save_window 2 (patience 1) 2 (trace fin)
          \<and> no_save_window 2 (patience 1) 3 (trace fin)
          \<and> batches_of 3 (trace fin) = [])"
proof -
  let ?S = "(init_state no_files)\<lparr>no_improve_in_previous_epoch := True\<rparr>"
  let ?S' = "(init_state no_files)\<lparr>no_improve_in_previous_epoch := True, no_improve_epoch := 1\<rparr>"
  obtain fin where fin: "fit no_gain_run 5 1 (2 / 5) 1 2 no_files = Inr fin"
    and tr: "trace fin = [Batch 0 1, Save 0 1, Batch 1 2, Batch 2 3]"
    using no_gain_run_trace by (cases "fit no_gain_run 5 1 (2 / 5) 1 2 no_files") auto
  note t = early_stopping_epoch_granularity
    [where warmup_epoch = 2 and e = 3 and early_stop = 1 and st = ?S and c = no_gain_run
       and eval_every = 1 and tresh = "2 / 5" and es = "[4]" and epoch = 5 and fs = no_files
       and fin = fin and a = 2 and k = 1 and b = 2 and fin' = fin and m = 2]
  note u = early_stopping_epoch_granularity
    [where warmup_epoch = 2 and early_stop = 1 and c = no_gain_run
       and eval_every = 1 and tresh = "2 / 5" and epoch = 5 and fs = no_files
       and fin = fin and m = 3]
  have w: "(2::int) \<le> int 3" by simp
  have h: "early_stopping 1 2 3 ?S = (True, ?S')"
    using t w by (simp add: init_state_def)
  then have "fst (early_stopping 1 2 3 ?S)" by simp
  with t have "epoch_loop no_gain_run 1 (2 / 5) 1 2 [3, 4] ?S = Inr (snd (early_stopping 1 2 3 ?S))"
    by blast
  with h have l: "epoch_loop no_gain_run 1 (2 / 5) 1 2 [3, 4] ?S = Inr ?S'" by simp
  from t fin have lp: "fit_loop no_gain_run 5 1 (2 / 5) 1 2 no_files = Inr fin" by blast
  have s2: "saves_of 2 (trace fin) = []"
    by (simp add: tr saves_of_def)
  have "\<forall>i<(1::nat). saves_of (2 + i) (trace fin) = []"
    using s2 by simp
  with t lp have p: "batches_from (2 + 1) (trace fin) = []"
    by simp
  have d: "0 < train_dl no_gain_run 2" "0 < train_dl no_gain_run 3"
    by (simp_all add: no_gain_run_def)
  with t lp have q: "batches_of 2 (trace fin) \<noteq> []"
    by simp
  from t lp d q have n2: "\<not> no_save_window 2 (patience 1) 2 (trace fin)"
    by simp
  have b3: "batches_of 3 (trace fin) = []"
    by (simp add: tr batches_of_def)
  with u lp d have n3: "no_save_window 2 (patience 1) 3 (trace fin)"
    by simp
  from t lp s2 have "batches_from 3 (trace fin) = []"
    by blast
  with w h l fin lp tr s2 q n2 n3 b3 show ?thesis by blast
qed

section \<open>Properties of the prediction paths\<close>

lemma predict_probs_fold:
  "fold (\<lambda>batch (y_pred, y_true, ids).
           (y_pred @ map sigmoid (forward_out batch),
            (if \<not> is_test then y_true @ target batch else y_true),
            ids @ qid batch)) dl (a, b, c)
   = (a @ map sigmoid (concat (map forward_out dl)),
      (if \<not> is_test then b @ concat (map target dl) else b),
      c @ concat (map qid dl))"
  by (induction dl arbitrary: a b c) auto

lemma predict_probs_val:
  "predict_probs val test False
     = (map sigmoid (concat (map forward_out val)), concat (map target val), concat (map qid val))"
  unfolding predict_probs_def Let_def using predict_probs_fold [of False val "[]" "[]" "[]"]
  by simp

lemma predict_probs_test:
  "predict_probs val test True
     = (map sigmoid (concat (map forward_out test)), [], concat (map qid test))"
  unfolding predict_probs_def Let_def using predict_probs_fold [of True test "[]" "[]" "[]"]
  by simp















lemma binade_numeral:
  "binade (numeral k) x e =
     (if 2 \<le> x then binade (pred_numeral k) (x / 2) (e + 1)
      else if x < 1 then binade (pred_numeral k) (2 * x) (e - 1)
      else e)"
  by (simp add: numeral_eq_Suc)

lemmas fl_eval = fl_def ulp_exp_def binade_numeral two_pow_def round_half_even_def

lemma upt_2: "[0..<2] = [0, 1]"
  by (simp add: upt_rec)




lemma arange_2:
  "tr_step \<noteq> 0 \<Longrightarrow> \<lceil>fl (fl (stop - start) / tr_step)\<rceil> = 2 \<Longrightarrow>
   arange start stop tr_step = Inr [start, fl (start + tr_step)]"
  by (simp add: arange_def Let_def upt_2)



text \<open>
  The doubles of the decimal literals \<open>0.1\<close>, \<open>0.2\<close>, \<open>0.4\<close>, \<open>0.35\<close> (7 / 20) and \<open>0.15\<close>
  (3 / 20); \<open>0.5\<close> is a double.
\<close>

lemma fl_literals:
  "fl (1 / 10) = 3602879701896397 / 2 ^ 55"
  "fl (1 / 5) = 3602879701896397 / 2 ^ 54"
  "fl (2 / 5) = 3602879701896397 / 2 ^ 53"
  "fl (7 / 20) = 3152519739159347 / 2 ^ 53"
  "fl (3 / 20) = 5404319552844595 / 2 ^ 55"
  "fl (1 / 2) = 1 / 2"
  by (simp_all add: fl_eval)




lemma arange_example: "arange (1 / 10) (1 / 2) (1 / 5) = Inr [1 / 10, fl (3 / 10)]"
  by (subst arange_2) (simp_all add: fl_eval)

lemma fl_three_tenths: "fl (3 / 10) < 1 / 2"
  by (simp add: fl_eval)

lemma choose_tr_eq:
  "arange min_tr max_tr tr_step = Inr cs \<Longrightarrow>
   choose_tr f1_score val test min_tr max_tr tr_step =
     Inr (fold (\<lambda>c (tr, best).
                  let cur = tr_score f1_score val c
                  in if best < cur then (c, cur) else (tr, best))
            cs (min_tr, 0))"
  by (simp add: choose_tr_def predict_probs_val tr_score_def)





lemma tr_score_two_examples:
  "c < 1 / 2 \<Longrightarrow> tr_score f1_score_binary two_examples c = 2 / 3"
  by (simp add: tr_score_def two_examples_def f1_score_binary_def sigmoid_0)


lemma tr_score_two_examples_values:
  "tr_score f1_score_binary two_examples (1 / 10) = 2 / 3"
  "tr_score f1_score_binary two_examples (fl (3 / 10)) = 2 / 3"
  by (rule tr_score_two_examples, simp, rule tr_score_two_examples, rule fl_three_tenths)

lemma choose_tr_example:
  "choose_tr f1_score_binary two_examples [] (1 / 10) (1 / 2) (1 / 5) = Inr (1 / 10, 2 / 3)"
  by (simp add: choose_tr_eq [OF arange_example] tr_score_two_examples_values Let_def)







section \<open>Properties of the run info\<close>

lemma round_half_even_of_int: "round_half_even (of_int n) = n"
  by (simp add: round_half_even_def)

lemma py_round_idem: "py_round (py_round v n) n = py_round v n"
  by (simp add: py_round_def round_half_even_of_int)

lemma rounded4_py_round: "rounded4 (py_round v 4)"
  by (simp add: rounded4_def py_round_idem)

lemma py_round_example: "py_round (123456789 / 10 ^ 9) 4 = 1235 / 10 ^ 4"
  by (simp add: py_round_def round_half_even_def)

lemma update_append_notin:
  "k \<notin> fst ` set ys \<Longrightarrow> AList.update k v (ys @ zs) = ys @ AList.update k v zs"
  by (induction ys) auto

lemma fold_update_map:
  "distinct (map fst (pre @ xs)) \<Longrightarrow>
   fold (\<lambda>(k, v) d. AList.update k (g v) d) xs (map (\<lambda>(k, v). (k, g v)) pre @ xs)
     = map (\<lambda>(k, v). (k, g v)) (pre @ xs)"
proof (induction xs arbitrary: pre)
  case Nil
  then show ?case by simp
next
  case (Cons x xs)
  obtain k v where x: "x = (k, v)" by (cases x)
  from Cons.prems x have nk: "k \<notin> fst ` set (map (\<lambda>(k, v). (k, g v)) pre)"
    by (auto simp: image_iff)
  have "AList.update k (g v) (map (\<lambda>(k, v). (k, g v)) pre @ (k, v) # xs)
      = map (\<lambda>(k, v). (k, g v)) (pre @ [(k, v)]) @ xs"
    using update_append_notin [OF nk] by simp
  moreover from Cons.prems x have "distinct (map fst ((pre @ [(k, v)]) @ xs))" by simp
  ultimately show ?case
    using Cons.IH [of "pre @ [(k, v)]"] x by simp
qed

lemma format_info_map:
  "distinct (map fst info) \<Longrightarrow> format_info info = map (\<lambda>(k, v). (k, py_round v 4)) info"
  using fold_update_map [of "[]" info "\<lambda>v. py_round v 4"]
  by (simp add: format_info_def zip_map_fst_snd)

lemma info_ok_format_info: "distinct (map fst info) \<Longrightarrow> info_ok (format_info info)"
  by (simp add: format_info_map info_ok_def list_all_iff rounded4_py_round comp_def
      case_prod_beta)

lemma raw_info_distinct: "distinct (map fst (raw_info c tresh e s ls))"
  by (simp add: raw_info_def split: prod.splits)

lemma info_file_ok_evaluate: "info_file_ok st \<Longrightarrow> info_file_ok (evaluate c tresh e st)"
  by (simp add: info_file_ok_def evaluate_checkpoint checkpoint_fields
      info_ok_format_info raw_info_distinct)

lemma info_file_ok_train_step:
  "info_file_ok st \<Longrightarrow> train_step c eval_every tresh e st = Inr st' \<Longrightarrow> info_file_ok st'"
proof -
  assume ok: "info_file_ok st" and t: "train_step c eval_every tresh e st = Inr st'"
  let ?st1 = "st\<lparr>step := step st + 1,
                 losses := losses st @ [loss_at c (step st + 1)],
                 train_record := train_record st @ [loss_at c (step st + 1)],
                 trace := trace st @ [Batch e (step st + 1)]\<rparr>"
  from ok have ok1: "info_file_ok ?st1" by (simp add: info_file_ok_def)
  from t have "st' = evaluate c tresh e ?st1 \<or> st' = ?st1"
    by (auto simp: train_step_def Let_def split: if_splits)
  with ok1 info_file_ok_evaluate [OF ok1] show ?thesis by auto
qed

lemma info_file_ok_batch_loop:
  "info_file_ok st \<Longrightarrow> batch_loop c eval_every tresh e n st = Inr st' \<Longrightarrow> info_file_ok st'"
proof (induction n arbitrary: st)
  case 0
  then show ?case by simp
next
  case (Suc n)
  from Suc.prems(2) obtain st1 where
    s1: "train_step c eval_every tresh e st = Inr st1" and
    s2: "batch_loop c eval_every tresh e n st1 = Inr st'"
    by (auto split: sum.splits)
  from Suc.IH [OF info_file_ok_train_step [OF Suc.prems(1) s1] s2] show ?case .
qed

lemma info_file_ok_early_stopping:
  "info_file_ok st \<Longrightarrow> early_stopping early_stop warmup_epoch e st = (b, st1) \<Longrightarrow> info_file_ok st1"
  by (auto simp: early_stopping_def info_file_ok_def Let_def split: if_splits)

lemma info_file_ok_fine_tune: "info_file_ok st \<Longrightarrow> info_file_ok (fine_tune w e st)"
  by (simp add: fine_tune_def info_file_ok_def)

lemma info_file_ok_epoch_loop:
  "info_file_ok st \<Longrightarrow>
   epoch_loop c eval_every tresh early_stop warmup_epoch es st = Inr st' \<Longrightarrow> info_file_ok st'"
proof (induction es arbitrary: st)
  case Nil
  then show ?case by simp
next
  case (Cons e es)
  from Cons.prems(2) show ?case
  proof (cases rule: epoch_loop_Cons_Inr)
    case (1 st1)
    with info_file_ok_early_stopping [OF Cons.prems(1) 1(1)] show ?thesis by simp
  next
    case (2 st1 st2)
    have "info_file_ok st2"
      by (rule info_file_ok_batch_loop [OF _ 2(2)], rule info_file_ok_fine_tune,
          rule info_file_ok_early_stopping [OF Cons.prems(1) 2(1)])
    from Cons.IH [OF this 2(3)] show ?thesis .
  qed
qed

lemma info_file_ok_fit:
  assumes "info_file_ok fs"
    and "fit c epoch eval_every tresh early_stop warmup_epoch fs = Inr st"
  shows "info_file_ok st"
proof (rule info_file_ok_epoch_loop [OF _ fit_Inr [OF assms(2)]])
  from assms(1) show "info_file_ok (init_state fs)"
    by (simp add: info_file_ok_def init_state_fields)
qed

lemma set_update_subset: "set (AList.update k v al) \<subseteq> insert (k, v) (set al)"
  by (induction al) auto

lemma info_ok_update: "info_ok d \<Longrightarrow> rounded4 v \<Longrightarrow> info_ok (AList.update k v d)"
  using set_update_subset [of k v d]
  by (auto simp: info_ok_def list_all_iff distinct_update)

lemma info_ok_dict_update:
  "info_ok d \<Longrightarrow> list_all (\<lambda>(k, v). rounded4 v) other \<Longrightarrow> info_ok (dict_update d other)"
  unfolding dict_update_def
  by (induction other arbitrary: d) (auto simp: info_ok_update)

lemma info_file_ok_append_info:
  assumes "info_file_ok fs" and "distinct (map fst dict)" and "append_info dict fs = Inr fs'"
  shows "info_file_ok fs'"
proof -
  from assms(3) obtain info where i: "best_info_file fs = Some info"
    and f: "fs' = fs\<lparr>best_info_file := Some (dict_update info (format_info dict))\<rparr>"
    by (auto simp: append_info_def Let_def split: option.splits)
  from assms(1) i have "info_ok info" by (simp add: info_file_ok_def)
  moreover from info_ok_format_info [OF assms(2)]
  have "list_all (\<lambda>(k, v). rounded4 v) (format_info dict)" by (simp add: info_ok_def)
  ultimately have "info_ok (dict_update info (format_info dict))"
    by (rule info_ok_dict_update)
  with f show ?thesis by (simp add: info_file_ok_def)
qed

lemma info_file_ok_predict_labels:
  assumes "info_file_ok fs"
    and "predict_labels f1_score val test is_test tresh fs = Inr (res, fs')"
  shows "info_file_ok fs'"
proof (cases tresh)
  case (Number t)
  with assms show ?thesis by (auto simp: predict_labels_def split: prod.splits)
next
  case (TrList l)
  with assms(2) obtain t best where
    "append_info [(''best_tr'', t), (''best_f1'', best)] fs = Inr fs'"
    by (auto simp: predict_labels_def split: prod.splits list.splits sum.splits)
  from info_file_ok_append_info [OF assms(1) _ this] show ?thesis by simp
qed

lemma map_of_dict_update:
  "distinct (map fst other) \<Longrightarrow> (k, v) \<in> set other \<Longrightarrow> map_of (dict_update d other) k = Some v"
  unfolding dict_update_def
proof (induction other arbitrary: d)
  case Nil
  then show ?case by simp
next
  case (Cons x xs)
  obtain k' v' where x: "x = (k', v')" by (cases x)
  show ?case
  proof (cases "(k, v) \<in> set xs")
    case True
    with Cons x show ?thesis by simp
  next
    case False
    with Cons.prems x have kv: "k' = k" "v' = v" and nk: "k \<notin> fst ` set xs"
      by (auto simp: image_iff)
    have keep: "\<And>d. k \<notin> fst ` set ys \<Longrightarrow>
        map_of (fold (\<lambda>(k, v) d'. AList.update k v d') ys d) k = map_of d k" for ys
      by (induction ys) (auto simp: update_conv')
    from keep [OF nk] x kv show ?thesis by (simp add: update_conv')
  qed
qed

lemma row_has_info_dict_update:
  assumes "distinct (map fst info)"
  shows "row_has_info (dict_update d (map (\<lambda>(k, v). (k, Num v)) info)) info"
proof -
  have d: "distinct (map fst (map (\<lambda>(k, v). (k, Num v)) info))"
    using assms by (simp add: comp_def case_prod_beta)
  have "\<And>k v. (k, v) \<in> set info \<Longrightarrow>
      map_of (dict_update d (map (\<lambda>(k, v). (k, Num v)) info)) k = Some (Num v)"
    by (rule map_of_dict_update [OF d]) force
  then show ?thesis by (auto simp: row_has_info_def list_all_iff)
qed

lemma record_run_rows:
  assumes "info_file_ok fs" and "record_run date_time hash args fs = Inr fs'"
  shows "\<exists>info subdir row m.
      best_info_file fs = Some info \<and> best_info_file fs' = Some info \<and> info_ok info
      \<and> subdirs fs' = subdirs fs @ [(subdir, row, m)]
      \<and> (if map_of args ''mode'' = Some (Str ''test'')
          then test_records_csv fs' = test_records_csv fs @ [row]
          else records_csv fs' = records_csv fs @ [row])
      \<and> row_has_info row info"
proof -
  from assms(2) obtain info m where i: "best_info_file fs = Some info"
    and m: "best_model_file fs = Some m"
    by (auto simp: record_run_def Let_def split: if_splits option.splits)
  from assms(1) i have ok: "info_ok info" by (simp add: info_file_ok_def)
  then have r: "\<And>d. row_has_info (dict_update d (map (\<lambda>(k, v). (k, Num v)) info)) info"
    by (simp add: info_ok_def row_has_info_dict_update)
  from assms(2) i m ok r show ?thesis
    by (auto simp: record_run_def Let_def split: if_splits)
qed

lemma evaluate_saves_formatted:
  "max_f1 st \<le> val_f1 c tresh (step st) \<Longrightarrow>
   best_info_file (evaluate c tresh e st)
     = Some (format_info (raw_info c tresh e (step st) (losses st)))"
  by (simp add: evaluate_checkpoint checkpoint_fields)

lemma info_file_ok_no_files: "info_file_ok no_files"
  by (simp add: info_file_ok_def no_files_def)

lemma py_round_values:
  "py_round 0 4 = 0" "py_round 1 4 = 1" "py_round 3 4 = 3" "py_round (3 / 5) 4 = 3 / 5"
  "py_round (1 / 10) 4 = 1 / 10" "py_round (2 / 3) 4 = 6667 / 10 ^ 4"
  by (simp_all add: py_round_def round_half_even_def)

lemma tie_run_info:
  "map_sum id best_info_file (fit tie_run 1 1 (2 / 5) 1 2 no_files)
     = Inr (Some [(''best_ep'', 0), (''step'', 3), (''train_loss'', 1), (''val_loss'', 1),
                  (''f1_score'', 3 / 5)])"
proof -
  have r: "raw_info tie_run (2 / 5) 0 3 [1, 1, 1]
      = [(''best_ep'', 0), (''step'', 3), (''train_loss'', 1), (''val_loss'', 1),
         (''f1_score'', 3 / 5)]"
    by (simp add: raw_info_def tie_run_def validation_pass_flat_val mean_def f1_metric_spec_def)
  have f: "format_info (raw_info tie_run (2 / 5) 0 3 [1, 1, 1])
      = [(''best_ep'', 0), (''step'', 3), (''train_loss'', 1), (''val_loss'', 1),
         (''f1_score'', 3 / 5)]"
    unfolding r by (simp add: format_info_map py_round_values)
  have "map_sum id best_info_file (fit tie_run 1 1 (2 / 5) 1 2 no_files)
     = Inr (Some (format_info (raw_info tie_run (2 / 5) 0 3 [1, 1, 1])))"
    by (simp del: epoch_loop.simps(2)
        add: run_simps val_f1_tie_run tie_run_def [THEN arg_cong, of train_dl]
          tie_run_def [THEN arg_cong, of loss_at] four_Suc numeral_3_eq_3)
  with f show ?thesis by simp
qed

lemma predict_labels_example:
  "predict_labels f1_score_binary two_examples [] False (TrList [1 / 10, 1 / 2, 1 / 5]) some_files
     = Inr (([1, 1], [1, 0], [1, 2]),
            some_files\<lparr>best_info_file :=
              Some [(''f1_score'', 3 / 5), (''best_tr'', 1 / 10), (''best_f1'', 6667 / 10 ^ 4)]\<rparr>)"
proof -
  have p: "predict_probs two_examples [] False = ([1 / 2, 1 / 2], [1, 0], [1, 2])"
    by (simp add: predict_probs_val two_examples_def sigmoid_0)
  show ?thesis
    by (simp add: predict_labels_def p choose_tr_example append_info_def
        format_info_map dict_update_def py_round_values some_files_def y_label_def)
qed

lemma record_run_example:
  "record_run ''Jan_01'' ''abc'' some_args some_files
     = Inr (some_files
         \<lparr>subdirs := [(''./models/Jan_01'',
                       [(''hash'', Str ''abc''), (''subdir'', Str ''./models/Jan_01''),
                        (''mode'', Str ''run''), (''lr'', Num (1 / 3)), (''f1_score'', Num (3 / 5))],
                       3)],
           records_csv := [[(''hash'', Str ''abc''), (''subdir'', Str ''./models/Jan_01''),
                        (''mode'', Str ''run''), (''lr'', Num (1 / 3)), (''f1_score'', Num (3 / 5))]]\<rparr>)"
  by (simp add: record_run_def some_args_def some_files_def dict_update_def Let_def)

text \<open>
  C7. \<open>format_info\<close> replaces every value of a run-info record by its rounding to four
  decimal places and keeps the keys; a value so rounded is a fixed point of the rounding;
  the raw value 0.123456789 becomes 0.1235. Every path that persists run info goes through
  it. An evaluation of \<open>fit\<close> that saves writes the formatted record to the info file. The
  info file is well formed (distinct keys, every value rounded) when there are no files,
  and stays well formed through \<open>fit\<close> and through \<open>predict_labels\<close> (whose threshold search
  appends to it with \<open>append_info\<close>). \<open>record\<close> leaves the info file as it is and writes every
  field of it, with its rounded value, into the one row that it puts both into the
  detail file of the new run subdirectory and at the end of the aggregate log of the mode.
  Numbers are real numbers here and the rounding is exact.
\<close>

theorem run_info_rounded_on_every_path:
  "(distinct (map fst info) \<longrightarrow>
      format_info info = map (\<lambda>(k, v). (k, py_round v 4)) info)
   \<and> rounded4 (py_round v 4)
   \<and> py_round (123456789 / 10 ^ 9) 4 = 1235 / 10 ^ 4
   \<and> (max_f1 st \<le> val_f1 c tresh (step st) \<longrightarrow>
        best_info_file (evaluate c tresh e st)
          = Some (format_info (raw_info c tresh e (step st) (losses st))))
   \<and> info_file_ok no_files
   \<and> (info_file_ok fs \<and> fit c epoch eval_every tresh early_stop warmup_epoch fs = Inr fin
        \<longrightarrow> info_file_ok fin)
   \<and> (info_file_ok fs \<and> predict_labels f1_score val test is_test tr fs = Inr (res, fs')
        \<longrightarrow> info_file_ok fs')
   \<and> (info_file_ok fs \<and> record_run date_time hash args fs = Inr fs'' \<longrightarrow>
        (\<exists>info subdir row m.
           best_info_file fs = Some info \<and> best_info_file fs'' = Some info \<and> info_ok info
           \<and> subdirs fs'' = subdirs fs @ [(subdir, row, m)]
           \<and> (if map_of args ''mode'' = Some (Str ''test'')
               then test_records_csv fs'' = test_records_csv fs @ [row]
               else records_csv fs'' = records_csv fs @ [row])
           \<and> row_has_info row info))"
  using format_info_map [of info] rounded4_py_round [of v] py_round_example
    evaluate_saves_formatted [of st c tresh e] info_file_ok_no_files
    info_file_ok_fit [of fs c epoch eval_every tresh early_stop warmup_epoch fin]
    info_file_ok_predict_labels [of fs f1_score val test is_test tr res fs']
    record_run_rows [of fs date_time hash args fs'']
  by blast

theorem run_info_rounded_on_every_path_witness:
  "distinct (map fst [(''f1_score'', (123456789::real) / 10 ^ 9)])
   \<and> format_info [(''f1_score'', 123456789 / 10 ^ 9)] = [(''f1_score'', 1235 / 10 ^ 4)]
   \<and> max_f1 ((init_state no_files)\<lparr>step := 3\<rparr>) \<le> val_f1 tie_run (2 / 5) 3
   \<and> best_info_file (evaluate tie_run (2 / 5) 0 ((init_state no_files)\<lparr>step := 3\<rparr>))
       = Some (format_info (raw_info tie_run (2 / 5) 0 3 []))
   \<and> (\<exists>fin. fit tie_run 1 1 (2 / 5) 1 2 no_files = Inr fin
          \<and> best_info_file fin
              = Some [(''best_ep'', 0), (''step'', 3), (''train_loss'', 1), (''val_loss'', 1),
                      (''f1_score'', 3 / 5)]
          \<and> info_file_ok fin)
   \<and> info_file_ok some_files
   \<and> predict_labels f1_score_binary two_examples [] False (TrList [1 / 10, 1 / 2, 1 / 5]) some_files
       = Inr (([1, 1], [1, 0], [1, 2]),
              some_files\<lparr>best_info_file :=
                Some [(''f1_score'', 3 / 5), (''best_tr'', 1 / 10), (''best_f1'', 6667 / 10 ^ 4)]\<rparr>)
   \<and> info_file_ok (some_files\<lparr>best_info_file :=
         Some [(''f1_score'', 3 / 5), (''best_tr'', 1 / 10), (''best_f1'', 6667 / 10 ^ 4)]\<rparr>)
   \<and> (\<exists>fs2 row. record_run ''Jan_01'' ''abc'' some_args some_files = Inr fs2
          \<and> subdirs fs2 = [(''./models/Jan_01'', row, 3)] \<and> records_csv fs2 = [row]
          \<and> map_of row ''f1_score'' = Some (Num (3 / 5))
          \<and> row_has_info row [(''f1_score'', 3 / 5)])"
proof -
  let ?i = "[(''f1_score'', (123456789::real) / 10 ^ 9)]"
  let ?st = "(init_state no_files)\<lparr>step := 3\<rparr>"
  let ?fs1 = "some_files\<lparr>best_info_file :=
      Some [(''f1_score'', 3 / 5), (''best_tr'', 1 / 10), (''best_f1'', 6667 / 10 ^ 4)]\<rparr>"
  obtain fin where fin: "fit tie_run 1 1 (2 / 5) 1 2 no_files = Inr fin"
    and inf: "best_info_file fin
              = Some [(''best_ep'', 0), (''step'', 3), (''train_loss'', 1), (''val_loss'', 1),
                      (''f1_score'', 3 / 5)]"
    using tie_run_info by (cases "fit tie_run 1 1 (2 / 5) 1 2 no_files") auto
  obtain fs2 where fs2: "record_run ''Jan_01'' ''abc'' some_args some_files = Inr fs2"
    and sub: "subdirs fs2 = [(''./models/Jan_01'',
                       [(''hash'', Str ''abc''), (''subdir'', Str ''./models/Jan_01''),
                        (''mode'', Str ''run''), (''lr'', Num (1 / 3)), (''f1_score'', Num (3 / 5))],
                       3)]"
    and recs: "records_csv fs2 = [[(''hash'', Str ''abc''), (''subdir'', Str ''./models/Jan_01''),
                        (''mode'', Str ''run''), (''lr'', Num (1 / 3)), (''f1_score'', Num (3 / 5))]]"
    using record_run_example by simp
  note t = run_info_rounded_on_every_path
    [where info = ?i and st = ?st and c = tie_run and tresh = "2 / 5" and e = 0
       and fs = no_files and epoch = 1 and eval_every = 1 and early_stop = 1
       and warmup_epoch = 2 and fin = fin]
  note u = run_info_rounded_on_every_path
    [where fs = some_files and f1_score = f1_score_binary and val = two_examples
       and test = "[]" and is_test = False and tr = "TrList [1 / 10, 1 / 2, 1 / 5]"
       and res = "([1, 1], [1, 0], [1, 2])" and fs' = ?fs1
       and date_time = "''Jan_01''" and hash = "''abc''" and args = some_args and fs'' = fs2]
  have d: "distinct (map fst ?i)" by simp
  with t have "format_info ?i = map (\<lambda>(k, v). (k, py_round v 4)) ?i" by blast
  with t have a: "format_info ?i = [(''f1_score'', 1235 / 10 ^ 4)]" by simp
  have m: "max_f1 ?st \<le> val_f1 tie_run (2 / 5) 3"
    by (simp add: val_f1_tie_run init_state_def)
  then have "max_f1 ?st \<le> val_f1 tie_run (2 / 5) (step ?st)" by simp
  with t have "best_info_file (evaluate tie_run (2 / 5) 0 ?st)
      = Some (format_info (raw_info tie_run (2 / 5) 0 (step ?st) (losses ?st)))" by blast
  then have b: "best_info_file (evaluate tie_run (2 / 5) 0 ?st)
      = Some (format_info (raw_info tie_run (2 / 5) 0 3 []))"
    by (simp add: init_state_def)
  from t fin have c: "info_file_ok fin" by blast
  have s: "info_file_ok some_files"
    by (simp add: info_file_ok_def info_ok_def rounded4_def some_files_def py_round_values)
  from s u predict_labels_example have p: "info_file_ok ?fs1" by blast
  from s u fs2 obtain info subdir row m where r:
    "best_info_file some_files = Some info" "subdirs fs2 = subdirs some_files @ [(subdir, row, m)]"
    "row_has_info row info"
    by blast
  from r(1) have i: "info = [(''f1_score'', 3 / 5)]" by (simp add: some_files_def)
  from r(2) sub have row: "row = [(''hash'', Str ''abc''), (''subdir'', Str ''./models/Jan_01''),
                        (''mode'', Str ''run''), (''lr'', Num (1 / 3)), (''f1_score'', Num (3 / 5))]"
    by (auto simp: some_files_def)
  from r(3) i have h: "row_has_info row [(''f1_score'', 3 / 5)]" by simp
  then have f: "map_of row ''f1_score'' = Some (Num (3 / 5))"
    by (simp add: row_has_info_def)
  from sub recs row have "subdirs fs2 = [(''./models/Jan_01'', row, 3)] \<and> records_csv fs2 = [row]"
    by simp
  with fs2 f h have e2: "\<exists>fs2 row. record_run ''Jan_01'' ''abc'' some_args some_files = Inr fs2
          \<and> subdirs fs2 = [(''./models/Jan_01'', row, 3)] \<and> records_csv fs2 = [row]
          \<and> map_of row ''f1_score'' = Some (Num (3 / 5))
          \<and> row_has_info row [(''f1_score'', 3 / 5)]"
    by blast
  from fin inf c have e1: "\<exists>fin. fit tie_run 1 1 (2 / 5) 1 2 no_files = Inr fin
          \<and> best_info_file fin
              = Some [(''best_ep'', 0), (''step'', 3), (''train_loss'', 1), (''val_loss'', 1),
                      (''f1_score'', 3 / 5)]
          \<and> info_file_ok fin"
    by blast
  from d a m b e1 s predict_labels_example p e2 show ?thesis by blast
qed

section \<open>Properties of the data pipeline\<close>

lemma set_build_vocab_1: "set (build_vocab datasets 1) = set (concat (concat datasets))"
proof -
  have "1 \<le> count_list tokens w" if "w \<in> set tokens" for w :: string and tokens
    using that by (cases "count_list tokens w") (auto simp: count_list_0_iff)
  then show ?thesis
    by (auto simp: build_vocab_def Let_def)
qed

lemma set_build_vocab_Suc_0:
  "set (build_vocab datasets (Suc 0)) = set (concat (concat datasets))"
  using set_build_vocab_1 [of datasets] by simp

lemma distinct_build_vocab: "distinct (build_vocab datasets min_freq)"
  by (simp add: build_vocab_def Let_def)

lemma train_tokens_preprocess:
  "train_tokens (preprocess tokenizer train_csv test_csv)
     = (\<Union>(q, text, t)\<in>set train_csv. set (tokenizer text))"
  by (auto simp: train_tokens_def preprocess_def Let_def)

lemma test_tokens_preprocess:
  "test_tokens (preprocess tokenizer train_csv test_csv)
     = (\<Union>(q, text)\<in>set test_csv. set (tokenizer text))"
  by (auto simp: test_tokens_def preprocess_def Let_def)

lemma set_text_vocab:
  "set (text_vocab (preprocess tokenizer train_csv test_csv))
     = train_tokens (preprocess tokenizer train_csv test_csv)
       \<union> test_tokens (preprocess tokenizer train_csv test_csv)"
proof -
  have "set (text_vocab (preprocess tokenizer train_csv test_csv))
      = (\<Union>(q, text, t)\<in>set train_csv. set (tokenizer text))
        \<union> (\<Union>(q, text)\<in>set test_csv. set (tokenizer text))"
    by (auto simp: preprocess_def Let_def set_build_vocab_Suc_0)
  then show ?thesis
    by (simp add: train_tokens_preprocess test_tokens_preprocess)
qed

lemma build_vocab_order: "set (build_vocab [a, b] 1) = set (build_vocab [b, a] 1)"
  unfolding set_build_vocab_1 by auto

lemma foo_bar_vocab:
  "text_vocab (preprocess WhitespaceTokenizer [(''1'', ''foo'', 0)] [(''2'', ''bar'')])
     = [''foo'', ''bar'']"
  "text_vocab (preprocess WhitespaceTokenizer [(''2'', ''bar'', 0)] [(''1'', ''foo'')])
     = [''bar'', ''foo'']"
  by (simp_all add: preprocess_def build_vocab_def WhitespaceTokenizer_def Let_def)

text \<open>
  C5. \<open>Data.preprocess\<close> builds one text vocabulary from the train and the test dataset
  together, with minimum frequency 1: the vocabulary holds exactly the tokens of the
  tokenized train texts and of the tokenized test texts, each once. So every token of the
  test dataset is in the vocabulary. The tokens in the vocabulary do not depend on which
  of two datasets is passed first. A train set whose only token is \<open>foo\<close> and a test set
  whose only token is \<open>bar\<close> give a vocabulary with both, whichever of the two is the train
  set.
\<close>

theorem preprocess_joint_vocabulary:
  "set (text_vocab (preprocess tokenizer train_csv test_csv))
     = train_tokens (preprocess tokenizer train_csv test_csv)
       \<union> test_tokens (preprocess tokenizer train_csv test_csv)
   \<and> train_tokens (preprocess tokenizer train_csv test_csv)
       = (\<Union>(q, text, t)\<in>set train_csv. set (tokenizer text))
   \<and> test_tokens (preprocess tokenizer train_csv test_csv)
       = (\<Union>(q, text)\<in>set test_csv. set (tokenizer text))
   \<and> test_tokens (preprocess tokenizer train_csv test_csv)
       \<subseteq> set (text_vocab (preprocess tokenizer train_csv test_csv))
   \<and> distinct (text_vocab (preprocess tokenizer train_csv test_csv))
   \<and> set (build_vocab [a, b] 1) = set (build_vocab [b, a] 1)
   \<and> text_vocab (preprocess WhitespaceTokenizer [(''1'', ''foo'', 0)] [(''2'', ''bar'')])
       = [''foo'', ''bar'']
   \<and> text_vocab (preprocess WhitespaceTokenizer [(''2'', ''bar'', 0)] [(''1'', ''foo'')])
       = [''bar'', ''foo'']"
proof -
  have "distinct (text_vocab (preprocess tokenizer train_csv test_csv))"
    by (simp add: preprocess_def Let_def distinct_build_vocab)
  moreover have "test_tokens (preprocess tokenizer train_csv test_csv)
       \<subseteq> set (text_vocab (preprocess tokenizer train_csv test_csv))"
    using set_text_vocab [of tokenizer train_csv test_csv] by blast
  ultimately show ?thesis
    using set_text_vocab [of tokenizer train_csv test_csv]
      train_tokens_preprocess [of tokenizer train_csv test_csv]
      test_tokens_preprocess [of tokenizer train_csv test_csv]
      build_vocab_order [of a b] foo_bar_vocab
    by blast
qed

end
